theory Spec2Isabelle
  imports Main
begin

section \<open>Data model of main.go\<close>

text \<open>
  An error value is represented by the text that \<^verbatim>\<open>err.Error()\<close> returns, which is all
  that main.go ever reads from it.
\<close>

type_synonym err = string

text \<open>
  Modelled from the spec: the declaration of \<^verbatim>\<open>MopidyStatus\<close> is not in main.go. Section 3
  of the specification lists the statuses NotStarted, Connecting, Connected and Failed;
  main.go names the constants MopidyConnecting, MopidyConnected and MopidyFailed.
\<close>

datatype MopidyStatus = MopidyNotStarted | MopidyConnecting | MopidyConnected | MopidyFailed

text \<open>
  \<^verbatim>\<open>os.Process\<close>, \<^verbatim>\<open>exec.Cmd\<close> and the record \<^verbatim>\<open>MopidyProc\<close>, reduced to the fields that
  main.go reads or writes (\<^verbatim>\<open>app.Mopidy.Cmd.Process\<close>, \<^verbatim>\<open>app.Mopidy.Status\<close>). Pointers
  are options: \<open>None\<close> is nil.
\<close>

record os_Process =
  pid :: nat
  killed :: bool

record exec_Cmd =
  Process :: "os_Process option"

record MopidyProc =
  Cmd :: "exec_Cmd option"
  Status :: MopidyStatus

type_synonym config_Properties = "(string \<times> string) list"

text \<open>
  Of \<^verbatim>\<open>gui.Gui\<close> only the status display is kept: the icon and the text last given to
  \<^verbatim>\<open>Gui.SetStatus(icon, text)\<close>.
\<close>

record gui_Gui =
  status_icon :: string
  status_text :: string

text \<open>
  The two channels are unbuffered. A goroutine that reaches a send blocks until the
  receiver takes its value, so the state of a channel is the list of blocked senders with
  their values, in the order in which they arrived; a receive takes the head. An entry of
  the error channel records whether the sender is the startup goroutine of \<^verbatim>\<open>main\<close>. A value
  on the work channel is a closure; the one built by \<^verbatim>\<open>Do\<close> runs \<open>f\<close> and then sends on its
  own channel \<^verbatim>\<open>done\<close>, which is identified by a number. Closures act on the part \<open>'u\<close> of the
  program state that lies outside the fields of \<^verbatim>\<open>Application\<close>.
\<close>

datatype sender = StartupGoroutine | OtherGoroutine

datatype 'u work = Closure "'u \<Rightarrow> 'u" | DoWrapper nat "'u \<Rightarrow> 'u"

text \<open>
  The struct \<^verbatim>\<open>Application\<close>. The mutex is \<open>None\<close> when unlocked and remembers the
  goroutine that locked it otherwise.
\<close>

record 'u Application =
  Mopidy :: "MopidyProc option"
  Config :: "config_Properties option"
  Gui :: "gui_Gui option"
  Errors :: "(sender \<times> err) list"
  ShowingError :: bool
  Work :: "'u work list"
  Running :: bool
  StatusLock :: "nat option"

datatype panic = NilPointerDereference

section \<open>Quit\<close>

definition Kill :: "os_Process \<Rightarrow> os_Process" where
  "Kill p = p\<lparr>killed := True\<rparr>"

text \<open>
  Lines 161 to 163: the condition dereferences \<^verbatim>\<open>app.Mopidy\<close> and \<^verbatim>\<open>app.Mopidy.Cmd\<close>, then
  the process is killed when the handle is not nil.
\<close>

definition quit_kill :: "('u, 'z) Application_scheme \<Rightarrow> panic + ('u, 'z) Application_scheme" where
  "quit_kill app =
     (case Mopidy app of
        None \<Rightarrow> Inl NilPointerDereference
      | Some m \<Rightarrow>
          (case Cmd m of
             None \<Rightarrow> Inl NilPointerDereference
           | Some c \<Rightarrow>
               (case Process c of
                  None \<Rightarrow> Inr app
                | Some p \<Rightarrow>
                    Inr (app\<lparr>Mopidy := Some (m\<lparr>Cmd := Some (c\<lparr>Process := Some (Kill p)\<rparr>)\<rparr>)\<rparr>))))"

text \<open>Line 164 follows: \<^verbatim>\<open>app.Running = false\<close>.\<close>

definition Quit :: "('u, 'z) Application_scheme \<Rightarrow> panic + ('u, 'z) Application_scheme" where
  "Quit app =
     (case quit_kill app of
        Inl p \<Rightarrow> Inl p
      | Inr app' \<Rightarrow> Inr (app'\<lparr>Running := False\<rparr>))"

text \<open>The process handle that \<^verbatim>\<open>app.Mopidy.Cmd.Process\<close> denotes, when every pointer on the way is set.\<close>

definition process_handle :: "('u, 'z) Application_scheme \<Rightarrow> os_Process option" where
  "process_handle app =
     (case Mopidy app of
        None \<Rightarrow> None
      | Some m \<Rightarrow> (case Cmd m of None \<Rightarrow> None | Some c \<Rightarrow> Process c))"

text \<open>The state that a call leaves when it returns; nothing when it panics.\<close>

definition returned :: "panic + 'a \<Rightarrow> 'a option" where
  "returned r = (case r of Inl p \<Rightarrow> None | Inr a \<Rightarrow> Some a)"

section \<open>The toolkit, the goroutines and the process around the application\<close>

text \<open>
  A dialog made by \<^verbatim>\<open>gtk.MessageDialogNew\<close> carries its message. Its kind stands for the
  closure that \<^verbatim>\<open>Fatal\<close> or \<^verbatim>\<open>NonFatal\<close> connects to the signal \<^verbatim>\<open>response\<close>. Dialogs are
  kept in the order of their creation, and a dialog is named by its position.
\<close>

datatype dialog_kind = FatalDialog | NonFatalDialog

record dialog =
  kind :: dialog_kind
  message :: err
  destroyed :: bool

text \<open>
  Modelled from the spec: \<^verbatim>\<open>QuitCallback\<close>, which \<^verbatim>\<open>Callbacks\<close> connects to the destruction of
  the main window and to the menu entry, is not in main.go; by section 6 of the
  specification it calls \<^verbatim>\<open>Quit\<close>. It is the event \<open>QuitSignal\<close>.

  The events are what the toolkit may dispatch while it runs an iteration of its loop: the
  response to a dialog, the signal that runs \<^verbatim>\<open>QuitCallback\<close>, or a callback of another file
  of the repository, which acts outside \<^verbatim>\<open>Application\<close>.
\<close>

datatype 'u gtk_event = Response nat | QuitSignal | OtherCallback "'u \<Rightarrow> 'u"

text \<open>Where the main goroutine stands in the loop of lines 83 to 106.\<close>

datatype main_pc = LoopHead | WorkSelect | ErrorSelect

text \<open>
  Where the goroutine of lines 73 to 80 stands: before \<^verbatim>\<open>InitMopidy\<close> has returned, blocked
  in the send of line 76, about to call \<^verbatim>\<open>StartMopidy\<close>, or inside that call.
\<close>

datatype bg_pc = BgInit | BgSending | BgReady | BgStarted

text \<open>
  Where a caller of \<^verbatim>\<open>Do\<close> stands: not yet called, blocked in the send of line 136, blocked
  in the receive of line 140, or returned.
\<close>

datatype do_pc = NotCalled | Sending | Receiving | DoReturned

record 'u world = "'u Application" +
  mem :: 'u
  dialogs :: "dialog list"
  main_level :: nat
  exit_code :: "nat option"
  pc :: main_pc
  bg :: bg_pc
  do_pc :: "nat \<Rightarrow> do_pc"
  done_chan :: "nat \<Rightarrow> bool"
  executed :: "nat \<Rightarrow> nat"

text \<open>
  \<open>exit_code\<close> is \<open>None\<close> while the process lives. \<open>done_chan c\<close> tells whether the
  channel \<^verbatim>\<open>done\<close> of call \<open>c\<close> (capacity one) holds its value. \<open>executed c\<close> counts how often
  the function given to call \<open>c\<close> of \<^verbatim>\<open>Do\<close> has been run.
\<close>

subsection \<open>Dialogs and the dispatch of events\<close>

definition show_dialog :: "dialog_kind \<Rightarrow> err \<Rightarrow> 'u world \<Rightarrow> 'u world" where
  "show_dialog k e w = w\<lparr>dialogs := dialogs w @ [\<lparr>kind = k, message = e, destroyed = False\<rparr>]\<rparr>"

text \<open>
  The response to a dialog that is still there runs the closure connected to it. For a
  dialog of \<^verbatim>\<open>NonFatal\<close> (lines 126 to 129) the dialog is destroyed and \<^verbatim>\<open>ShowingError\<close> is
  reset. For a dialog of \<^verbatim>\<open>Fatal\<close> (lines 112 to 115) \<^verbatim>\<open>os.Exit(1)\<close> ends the process; the call
  of \<^verbatim>\<open>gtk.MainQuit\<close> before it has no effect that could be seen. A panic that nothing
  recovers ends a Go program with status 2.
\<close>

fun dispatch :: "'u gtk_event \<Rightarrow> 'u world \<Rightarrow> 'u world" where
  "dispatch (Response i) w =
     (if i < length (dialogs w) \<and> \<not> destroyed (dialogs w ! i) then
        (case kind (dialogs w ! i) of
           FatalDialog \<Rightarrow> w\<lparr>exit_code := Some 1\<rparr>
         | NonFatalDialog \<Rightarrow>
             w\<lparr>dialogs := (dialogs w)[i := (dialogs w ! i)\<lparr>destroyed := True\<rparr>],
               ShowingError := False\<rparr>)
      else w)"
| "dispatch QuitSignal w =
     (case Quit w of
        Inl p \<Rightarrow> w\<lparr>exit_code := Some 2\<rparr>
      | Inr w' \<Rightarrow> w')"
| "dispatch (OtherCallback g) w = w\<lparr>mem := g (mem w)\<rparr>"

text \<open>A batch of events is dispatched in order; nothing runs once the process has ended.\<close>

fun gtk_events :: "'u gtk_event list \<Rightarrow> 'u world \<Rightarrow> 'u world" where
  "gtk_events [] w = w"
| "gtk_events (e # evs) w =
     (if exit_code w = None then gtk_events evs (dispatch e w) else w)"

text \<open>
  \<^verbatim>\<open>gtk.Main()\<close> enters a nested loop that dispatches events until \<^verbatim>\<open>gtk.MainQuit\<close> is called.
  In main.go that call is followed at once by \<^verbatim>\<open>os.Exit(1)\<close>, so the loop never returns: the
  result is the world after the events supplied, still inside the loop unless the process
  has ended.
\<close>

definition gtk_Main :: "'u gtk_event list \<Rightarrow> 'u world \<Rightarrow> 'u world" where
  "gtk_Main evs w = gtk_events evs (w\<lparr>main_level := Suc (main_level w)\<rparr>)"

text \<open>A call either returns to its caller or never does.\<close>

datatype 'a flow = Returned 'a | NotReturned 'a

fun and_then :: "'a flow \<Rightarrow> ('a \<Rightarrow> 'a flow) \<Rightarrow> 'a flow" where
  "and_then (Returned w) k = k w"
| "and_then (NotReturned w) k = NotReturned w"

fun flow_state :: "'a flow \<Rightarrow> 'a" where
  "flow_state (Returned w) = w"
| "flow_state (NotReturned w) = w"

fun has_returned :: "'a flow \<Rightarrow> bool" where
  "has_returned (Returned w) = True"
| "has_returned (NotReturned w) = False"

subsection \<open>Fatal and NonFatal\<close>

text \<open>Lines 110 to 120. The events are those that arrive while the nested loop runs.\<close>

definition Fatal :: "err \<Rightarrow> 'u gtk_event list \<Rightarrow> 'u world \<Rightarrow> 'u world flow" where
  "Fatal e evs w =
     (let w' = show_dialog FatalDialog e w
      in if main_level w' = 0 then NotReturned (gtk_Main evs w') else Returned w')"

text \<open>Lines 124 to 131.\<close>

definition NonFatal :: "err \<Rightarrow> 'u world \<Rightarrow> 'u world" where
  "NonFatal e w = show_dialog NonFatalDialog e w"

text \<open>Dialog \<open>i\<close> is a dialog of \<^verbatim>\<open>Fatal\<close> that is on the screen.\<close>

definition fatal_visible :: "nat \<Rightarrow> 'u world \<Rightarrow> bool" where
  "fatal_visible i w =
     (i < length (dialogs w) \<and> kind (dialogs w ! i) = FatalDialog \<and> \<not> destroyed (dialogs w ! i))"

definition visible_nonfatal :: "dialog \<Rightarrow> bool" where
  "visible_nonfatal d = (kind d = NonFatalDialog \<and> \<not> destroyed d)"

definition is_nonfatal :: "dialog \<Rightarrow> bool" where
  "is_nonfatal d = (kind d = NonFatalDialog)"

definition dismissed_nonfatal :: "dialog \<Rightarrow> bool" where
  "dismissed_nonfatal d = (kind d = NonFatalDialog \<and> destroyed d)"

text \<open>
  The dialogs of \<^verbatim>\<open>NonFatal\<close> that are on the screen, the messages of all that were ever
  shown, in the order in which they were shown, those that were dismissed, and the errors
  that wait on the error channel, in the order of their arrival.
\<close>

definition visible :: "'u world \<Rightarrow> dialog list" where
  "visible w = filter visible_nonfatal (dialogs w)"

definition shown :: "'u world \<Rightarrow> err list" where
  "shown w = map message (filter is_nonfatal (dialogs w))"

definition dismissed :: "'u world \<Rightarrow> dialog list" where
  "dismissed w = filter dismissed_nonfatal (dialogs w)"

definition pending :: "'u world \<Rightarrow> err list" where
  "pending w = map snd (Errors w)"

definition one_dialog :: "'u world \<Rightarrow> bool" where
  "one_dialog w = (length (visible w) \<le> 1 \<and> (visible w \<noteq> [] \<longrightarrow> ShowingError w))"

subsection \<open>The loop of main\<close>

text \<open>
  Lines 87 to 92: a receive from the work channel inside a \<^verbatim>\<open>select\<close> with a \<^verbatim>\<open>default\<close>. When
  a sender is blocked on the channel its closure is taken and run. Taking the closure of
  \<^verbatim>\<open>Do\<close> completes the send of line 136, and the closure runs \<open>f\<close> and sends on \<^verbatim>\<open>done\<close>
  (lines 137 and 138).
\<close>

definition work_select :: "'u world \<Rightarrow> 'u world" where
  "work_select w =
     (case Work w of
        [] \<Rightarrow> w
      | Closure f # q \<Rightarrow> w\<lparr>Work := q, mem := f (mem w)\<rparr>
      | DoWrapper c f # q \<Rightarrow>
          w\<lparr>Work := q,
            do_pc := (do_pc w)(c := Receiving),
            mem := f (mem w),
            executed := (executed w)(c := Suc (executed w c)),
            done_chan := (done_chan w)(c := True)\<rparr>)"

text \<open>
  Lines 96 to 105. \<^verbatim>\<open>Disable\<close> is a method defined in another file; its effect is a
  parameter. Taking the value of the startup goroutine completes its send.
\<close>

definition error_select :: "('u \<Rightarrow> 'u) \<Rightarrow> 'u world \<Rightarrow> 'u world" where
  "error_select Disable w =
     (if ShowingError w then w
      else
        (case Errors w of
           [] \<Rightarrow> w
         | (s, e) # q \<Rightarrow>
             (let w1 = w\<lparr>Errors := q, bg := (if s = StartupGoroutine then BgReady else bg w)\<rparr>;
                  w2 = w1\<lparr>ShowingError := True\<rparr>;
                  w3 = NonFatal e w2
              in w3\<lparr>mem := Disable (mem w3)\<rparr>)))"

text \<open>
  One step of the main goroutine: the test of line 83 with the call of
  \<^verbatim>\<open>gtk.MainIteration\<close>, which dispatches the batch of events given; then the first
  \<^verbatim>\<open>select\<close>; then the second. When \<^verbatim>\<open>Running\<close> is false \<^verbatim>\<open>main\<close> returns, which ends a Go
  program with status 0. The result \<open>None\<close> says that the goroutine cannot take a step.
\<close>

definition main_step :: "('u \<Rightarrow> 'u) \<Rightarrow> 'u gtk_event list \<Rightarrow> 'u world \<Rightarrow> 'u world option" where
  "main_step Disable evs w =
     (if exit_code w \<noteq> None then None
      else
        (case pc w of
           LoopHead \<Rightarrow>
             (if Running w then Some ((gtk_events evs w)\<lparr>pc := WorkSelect\<rparr>)
              else Some (w\<lparr>exit_code := Some 0\<rparr>))
         | WorkSelect \<Rightarrow> Some ((work_select w)\<lparr>pc := ErrorSelect\<rparr>)
         | ErrorSelect \<Rightarrow> Some ((error_select Disable w)\<lparr>pc := LoopHead\<rparr>)))"

subsection \<open>Do\<close>

text \<open>
  Lines 135 and 136: call \<open>c\<close> makes its channel \<^verbatim>\<open>done\<close> and blocks in the send of the
  closure on the work channel.
\<close>

definition Do_send :: "nat \<Rightarrow> ('u \<Rightarrow> 'u) \<Rightarrow> 'u world \<Rightarrow> 'u world option" where
  "Do_send c f w =
     (if do_pc w c = NotCalled then
        Some (w\<lparr>Work := Work w @ [DoWrapper c f], do_pc := (do_pc w)(c := Sending)\<rparr>)
      else None)"

text \<open>
  Line 140: the receive from \<^verbatim>\<open>done\<close> blocks until the channel holds a value; then
  \<^verbatim>\<open>Do\<close> returns.
\<close>

definition Do_receive :: "nat \<Rightarrow> 'u world \<Rightarrow> 'u world option" where
  "Do_receive c w =
     (if do_pc w c = Receiving \<and> done_chan w c then
        Some (w\<lparr>done_chan := (done_chan w)(c := False), do_pc := (do_pc w)(c := DoReturned)\<rparr>)
      else None)"

text \<open>The calls of \<^verbatim>\<open>Do\<close> whose closures wait on the work channel.\<close>

fun wrapper_ids :: "'u work list \<Rightarrow> nat list" where
  "wrapper_ids [] = []"
| "wrapper_ids (Closure f # q) = wrapper_ids q"
| "wrapper_ids (DoWrapper c f # q) = c # wrapper_ids q"

text \<open>No call of \<^verbatim>\<open>Do\<close> has begun.\<close>

definition no_call_begun :: "'u world \<Rightarrow> bool" where
  "no_call_begun w =
     (wrapper_ids (Work w) = []
      \<and> (\<forall>c. do_pc w c = NotCalled \<and> executed w c = 0 \<and> \<not> done_chan w c))"

text \<open>
  What holds of the calls of \<^verbatim>\<open>Do\<close> in every state: a closure waits on the channel exactly
  while its caller is blocked in the send, and never twice; the function has run once
  exactly when the send is over; \<^verbatim>\<open>done\<close> holds its value exactly while the caller is
  blocked in the receive.
\<close>

definition do_inv :: "'u world \<Rightarrow> bool" where
  "do_inv w =
     (distinct (wrapper_ids (Work w))
      \<and> (\<forall>c. (c \<in> set (wrapper_ids (Work w))) = (do_pc w c = Sending)
             \<and> executed w c = (if do_pc w c = Receiving \<or> do_pc w c = DoReturned then 1 else 0)
             \<and> done_chan w c = (do_pc w c = Receiving)))"

subsection \<open>The goroutine started by main\<close>

text \<open>
  Lines 74 to 77. \<^verbatim>\<open>InitMopidy\<close> is defined in another file: the record it leaves in
  \<^verbatim>\<open>app.Mopidy\<close> and the error it returns are given. With an error the goroutine blocks in
  the send of line 76.
\<close>

definition goroutine_init :: "MopidyProc option \<Rightarrow> err option \<Rightarrow> 'u world \<Rightarrow> 'u world option" where
  "goroutine_init m r w =
     (if bg w = BgInit then
        (case r of
           None \<Rightarrow> Some (w\<lparr>Mopidy := m, bg := BgReady\<rparr>)
         | Some e \<Rightarrow>
             Some (w\<lparr>Mopidy := m, Errors := Errors w @ [(StartupGoroutine, e)], bg := BgSending\<rparr>))
      else None)"

text \<open>Line 79: the call of \<^verbatim>\<open>StartMopidy\<close>, whose body is in another file.\<close>

definition goroutine_start :: "'u world \<Rightarrow> 'u world option" where
  "goroutine_start w = (if bg w = BgReady then Some (w\<lparr>bg := BgStarted\<rparr>) else None)"

subsection \<open>Interleavings\<close>

text \<open>
  The steps that the goroutines of the program can take. Senders other than \<^verbatim>\<open>Do\<close> and the
  startup goroutine are goroutines of other files that reach a send on one of the two
  channels.
\<close>

datatype 'u action =
    MainStep "'u gtk_event list"
  | SendWork "'u \<Rightarrow> 'u"
  | SendError err
  | DoCall nat "'u \<Rightarrow> 'u"
  | DoReturn nat
  | InitMopidyReturns "MopidyProc option" "err option"
  | CallStartMopidy

definition step :: "('u \<Rightarrow> 'u) \<Rightarrow> 'u action \<Rightarrow> 'u world \<Rightarrow> 'u world option" where
  "step Disable a w =
     (if exit_code w \<noteq> None then None
      else
        (case a of
           MainStep evs \<Rightarrow> main_step Disable evs w
         | SendWork f \<Rightarrow> Some (w\<lparr>Work := Work w @ [Closure f]\<rparr>)
         | SendError e \<Rightarrow> Some (w\<lparr>Errors := Errors w @ [(OtherGoroutine, e)]\<rparr>)
         | DoCall c f \<Rightarrow> Do_send c f w
         | DoReturn c \<Rightarrow> Do_receive c w
         | InitMopidyReturns m r \<Rightarrow> goroutine_init m r w
         | CallStartMopidy \<Rightarrow> goroutine_start w))"

fun run :: "('u \<Rightarrow> 'u) \<Rightarrow> 'u action list \<Rightarrow> 'u world \<Rightarrow> 'u world option" where
  "run Disable [] w = Some w"
| "run Disable (a # as) w =
     (case step Disable a w of
        None \<Rightarrow> None
      | Some w' \<Rightarrow> run Disable as w')"

text \<open>The errors that an action brings to the error channel.\<close>

fun arrival :: "'u action \<Rightarrow> err list" where
  "arrival (SendError e) = [e]"
| "arrival (InitMopidyReturns m (Some e)) = [e]"
| "arrival a = []"

definition arrivals :: "'u action list \<Rightarrow> err list" where
  "arrivals as = concat (map arrival as)"

section \<open>Startup\<close>

text \<open>
  The results of the calls that lines 44 to 66 make outside the repository's main.go:
  \<^verbatim>\<open>exec.LookPath("mopidy")\<close>, \<^verbatim>\<open>user.Current()\<close> (the home directory), \<^verbatim>\<open>config.Load\<close> and
  \<^verbatim>\<open>gui.Init\<close>.
\<close>

record startup_env =
  LookPath :: "err + string"
  user_Current :: "err + string"
  config_Load :: "string \<Rightarrow> err + config_Properties"
  gui_Init :: "config_Properties option \<Rightarrow> err + gui_Gui"

text \<open>Lines 35 to 40: the new application, and the toolkit initialised.\<close>

definition init_world :: "'u \<Rightarrow> 'u world" where
  "init_world u =
     \<lparr>Mopidy = None, Config = None, Gui = None, Errors = [], ShowingError = False,
      Work = [], Running = True, StatusLock = None,
      mem = u, dialogs = [], main_level = 0, exit_code = None, pc = LoopHead, bg = BgInit,
      do_pc = (\<lambda>c. NotCalled), done_chan = (\<lambda>c. False), executed = (\<lambda>c. 0)\<rparr>"

definition config_path :: "string \<Rightarrow> string" where
  "config_path home = home @ ''/.config/wetsuit/mopidy.conf''"

text \<open>Lines 44 to 47.\<close>

definition check_installed :: "startup_env \<Rightarrow> 'u gtk_event list \<Rightarrow> 'u world \<Rightarrow> 'u world flow" where
  "check_installed env evs w =
     (case LookPath env of
        Inl e \<Rightarrow> Fatal ''Mopidy is not installed.'' evs w
      | Inr p \<Rightarrow> Returned w)"

text \<open>Lines 50 to 63; the path stays empty when the user is not found.\<close>

definition load_config :: "startup_env \<Rightarrow> string \<Rightarrow> 'u gtk_event list \<Rightarrow> 'u world \<Rightarrow> 'u world flow" where
  "load_config env path evs w =
     (case config_Load env path of
        Inr p \<Rightarrow> Returned (w\<lparr>Config := Some p\<rparr>)
      | Inl e \<Rightarrow> Fatal e evs w)"

definition find_config :: "startup_env \<Rightarrow> 'u gtk_event list \<Rightarrow> 'u world \<Rightarrow> 'u world flow" where
  "find_config env evs w =
     (case user_Current env of
        Inr home \<Rightarrow> load_config env (config_path home) evs w
      | Inl e \<Rightarrow> and_then (Fatal e evs w) (load_config env [] evs))"

text \<open>
  Lines 66 to 71; \<^verbatim>\<open>app.Gui.MainWindow\<close> dereferences the pointer that \<^verbatim>\<open>gui.Init\<close> returned.
\<close>

definition show_window :: "'u world \<Rightarrow> 'u world flow" where
  "show_window w =
     (case Gui w of
        None \<Rightarrow> NotReturned (w\<lparr>exit_code := Some 2\<rparr>)
      | Some g \<Rightarrow> Returned w)"

definition create_window :: "startup_env \<Rightarrow> 'u gtk_event list \<Rightarrow> 'u world \<Rightarrow> 'u world flow" where
  "create_window env evs w =
     (case gui_Init env (Config w) of
        Inr g \<Rightarrow> show_window (w\<lparr>Gui := Some g\<rparr>)
      | Inl e \<Rightarrow> and_then (Fatal e evs w) show_window)"

text \<open>
  Lines 35 to 80: \<^verbatim>\<open>main\<close> up to the loop. When it returns, the goroutine has been started
  and the loop is about to be entered.
\<close>

definition main_startup :: "startup_env \<Rightarrow> 'u \<Rightarrow> 'u gtk_event list \<Rightarrow> 'u world flow" where
  "main_startup env u evs =
     and_then (check_installed env evs (init_world u))
       (\<lambda>w1. and_then (find_config env evs w1)
         (\<lambda>w2. and_then (create_window env evs w2) Returned))"

text \<open>The function that a value of the work channel runs.\<close>

fun work_body :: "'u work \<Rightarrow> 'u \<Rightarrow> 'u" where
  "work_body (Closure f) = f"
| "work_body (DoWrapper c f) = f"

section \<open>SetStatus\<close>

text \<open>
  Lines 149 to 156: the icon and the text that the switch hands to \<^verbatim>\<open>Gui.SetStatus\<close>. The
  switch has three cases and no default; \<^verbatim>\<open>gtk.STOCK_CONNECT\<close> is the string gtk-connect.
\<close>

definition status_display :: "MopidyStatus \<Rightarrow> (string \<times> string) option" where
  "status_display s =
     (case s of
        MopidyConnecting \<Rightarrow> Some ([], ''Connecting...'')
      | MopidyConnected \<Rightarrow> Some (''gtk-connect'', ''Connected to Mopidy.'')
      | MopidyFailed \<Rightarrow> Some ([], ''Not connected.'')
      | MopidyNotStarted \<Rightarrow> None)"

text \<open>
  Modelled from the spec: \<^verbatim>\<open>Gui.SetStatus\<close> is not in main.go; by section 6 of the
  specification it writes the status display.
\<close>

definition Gui_SetStatus :: "string \<Rightarrow> string \<Rightarrow> gui_Gui \<Rightarrow> gui_Gui" where
  "Gui_SetStatus icon txt g = g\<lparr>status_icon := icon, status_text := txt\<rparr>"

text \<open>
  Where a goroutine stands in a call \<^verbatim>\<open>SetStatus(s)\<close>: outside, at the lock of line 145, at
  the assignment of line 148, at the switch of line 149, at the deferred unlock, or returned.
\<close>

datatype ss_pc = SsIdle | SsLock MopidyStatus | SsWrite MopidyStatus | SsUpdate MopidyStatus
  | SsUnlock | SsDone

record 'u status_sys = "'u Application" +
  callers :: "nat \<Rightarrow> ss_pc"
  crashed :: bool

definition in_critical :: "ss_pc \<Rightarrow> bool" where
  "in_critical p = (case p of SsWrite s \<Rightarrow> True | SsUpdate s \<Rightarrow> True | SsUnlock \<Rightarrow> True | _ \<Rightarrow> False)"

text \<open>
  One statement of the call that goroutine \<open>t\<close> is in. The lock blocks while another
  goroutine holds the mutex. A nil pointer panics: the deferred unlock runs and the
  program ends.
\<close>

definition SetStatus_step :: "nat \<Rightarrow> 'u status_sys \<Rightarrow> 'u status_sys option" where
  "SetStatus_step t w =
     (case callers w t of
        SsIdle \<Rightarrow> None
      | SsDone \<Rightarrow> None
      | SsLock s \<Rightarrow>
          (case StatusLock w of
             None \<Rightarrow> Some (w\<lparr>StatusLock := Some t, callers := (callers w)(t := SsWrite s)\<rparr>)
           | Some h \<Rightarrow> None)
      | SsWrite s \<Rightarrow>
          (case Mopidy w of
             None \<Rightarrow> Some (w\<lparr>StatusLock := None, crashed := True\<rparr>)
           | Some m \<Rightarrow>
               Some (w\<lparr>Mopidy := Some (m\<lparr>Status := s\<rparr>), callers := (callers w)(t := SsUpdate s)\<rparr>))
      | SsUpdate s \<Rightarrow>
          (case status_display s of
             None \<Rightarrow> Some (w\<lparr>callers := (callers w)(t := SsUnlock)\<rparr>)
           | Some (icon, txt) \<Rightarrow>
               (case Gui w of
                  None \<Rightarrow> Some (w\<lparr>StatusLock := None, crashed := True\<rparr>)
                | Some g \<Rightarrow>
                    Some (w\<lparr>Gui := Some (Gui_SetStatus icon txt g),
                           callers := (callers w)(t := SsUnlock)\<rparr>)))
      | SsUnlock \<Rightarrow> Some (w\<lparr>StatusLock := None, callers := (callers w)(t := SsDone)\<rparr>))"

datatype ss_action = CallSetStatus nat MopidyStatus | StepSetStatus nat

definition status_step :: "ss_action \<Rightarrow> 'u status_sys \<Rightarrow> 'u status_sys option" where
  "status_step a w =
     (if crashed w then None
      else
        (case a of
           CallSetStatus t s \<Rightarrow>
             (if callers w t = SsIdle \<or> callers w t = SsDone then
                Some (w\<lparr>callers := (callers w)(t := SsLock s)\<rparr>)
              else None)
         | StepSetStatus t \<Rightarrow> SetStatus_step t w))"

fun status_run :: "ss_action list \<Rightarrow> 'u status_sys \<Rightarrow> 'u status_sys option" where
  "status_run [] w = Some w"
| "status_run (a # as) w =
     (case status_step a w of
        None \<Rightarrow> None
      | Some w' \<Rightarrow> status_run as w')"

text \<open>A whole call by goroutine \<open>t\<close>, with no step of another goroutine in between.\<close>

definition SetStatus :: "nat \<Rightarrow> MopidyStatus \<Rightarrow> 'u status_sys \<Rightarrow> 'u status_sys option" where
  "SetStatus t s w =
     status_run [CallSetStatus t s, StepSetStatus t, StepSetStatus t, StepSetStatus t,
                 StepSetStatus t] w"

fun requests_handled :: "ss_action \<Rightarrow> bool" where
  "requests_handled (CallSetStatus t s) = (status_display s \<noteq> None)"
| "requests_handled (StepSetStatus t) = True"

text \<open>The status and the display agree with the table of the switch.\<close>

definition paired :: "('u, 'z) Application_scheme \<Rightarrow> bool" where
  "paired w =
     (case Mopidy w of
        None \<Rightarrow> False
      | Some m \<Rightarrow>
          (case Gui w of
             None \<Rightarrow> False
           | Some g \<Rightarrow> status_display (Status m) = Some (status_icon g, status_text g)))"

text \<open>
  What a goroutine reads that takes the mutex and looks at the status and at the display:
  nothing while the mutex is held by another.
\<close>

definition observe :: "('u, 'z) Application_scheme \<Rightarrow> (MopidyStatus \<times> string \<times> string) option" where
  "observe w =
     (case StatusLock w of
        Some h \<Rightarrow> None
      | None \<Rightarrow>
          (case Mopidy w of
             None \<Rightarrow> None
           | Some m \<Rightarrow>
               (case Gui w of
                  None \<Rightarrow> None
                | Some g \<Rightarrow> Some (Status m, status_icon g, status_text g))))"

definition observe_after :: "ss_action list \<Rightarrow> 'u status_sys \<Rightarrow> (MopidyStatus \<times> string \<times> string) option" where
  "observe_after as w =
     (case status_run as w of
        None \<Rightarrow> None
      | Some w' \<Rightarrow> observe w')"

text \<open>
  The lock discipline: the program has not panicked, the two pointers that \<^verbatim>\<open>SetStatus\<close>
  dereferences are set, and a goroutine is between its lock and its unlock exactly when it
  is the one that holds the mutex.
\<close>

definition lock_inv :: "'u status_sys \<Rightarrow> bool" where
  "lock_inv w =
     (\<not> crashed w \<and> Mopidy w \<noteq> None \<and> Gui w \<noteq> None
      \<and> (\<forall>t. in_critical (callers w t) = (StatusLock w = Some t)))"

text \<open>
  What holds of the status and the display, relative to the state \<open>w0\<close> in which the
  goroutines started, when every call asks for a status that the switch handles.
\<close>

definition pair_inv :: "'u status_sys \<Rightarrow> 'u status_sys \<Rightarrow> bool" where
  "pair_inv w0 w =
     ((\<forall>t s. callers w t = SsLock s \<or> callers w t = SsWrite s \<or> callers w t = SsUpdate s
           \<longrightarrow> status_display s \<noteq> None)
      \<and> (\<forall>t s. callers w t = SsUpdate s \<longrightarrow> map_option Status (Mopidy w) = Some s)
      \<and> (\<forall>t. callers w t = SsUnlock \<longrightarrow> paired w)
      \<and> (StatusLock w = None \<or> (\<exists>t s. callers w t = SsWrite s)
           \<longrightarrow> paired w \<or> (Mopidy w = Mopidy w0 \<and> Gui w = Gui w0)))"

text \<open>
  Two goroutines call \<^verbatim>\<open>SetStatus\<close> at the same time; the second takes the mutex after the
  first has released it.
\<close>

definition example_calls :: "ss_action list" where
  "example_calls =
     [CallSetStatus 0 MopidyConnecting, CallSetStatus 1 MopidyFailed,
      StepSetStatus 0, StepSetStatus 0, StepSetStatus 0, StepSetStatus 0,
      StepSetStatus 1, StepSetStatus 1, StepSetStatus 1, StepSetStatus 1]"

definition example_unhandled :: "ss_action list" where
  "example_unhandled =
     [CallSetStatus 0 MopidyNotStarted,
      StepSetStatus 0, StepSetStatus 0, StepSetStatus 0, StepSetStatus 0]"

section \<open>Concrete states\<close>

definition example_process :: os_Process where
  "example_process = \<lparr>pid = 4711, killed = False\<rparr>"

definition example_mopidy :: MopidyProc where
  "example_mopidy = \<lparr>Cmd = Some \<lparr>Process = Some example_process\<rparr>, Status = MopidyConnected\<rparr>"

definition example_gui :: gui_Gui where
  "example_gui = \<lparr>status_icon = ''gtk-connect'', status_text = ''Connected to Mopidy.''\<rparr>"

text \<open>A running application whose external state is a log of what ran, in order.\<close>

definition logs :: "string \<Rightarrow> string list \<Rightarrow> string list" where
  "logs x u = u @ [x]"

definition example_world :: "string list world" where
  "example_world = (init_world [])\<lparr>Mopidy := Some example_mopidy, Gui := Some example_gui\<rparr>"

text \<open>The same with one closure and one error waiting on the channels.\<close>

definition example_busy :: "string list world" where
  "example_busy =
     example_world\<lparr>Work := [Closure (logs ''work'')], Errors := [(OtherGoroutine, ''boom'')]\<rparr>"

text \<open>
  Two errors arrive; the first is shown, the second waits until the first dialog has been
  dismissed.
\<close>

definition example_errors :: "string list action list" where
  "example_errors =
     [SendError ''first'', SendError ''second'',
      MainStep [], MainStep [], MainStep [],
      MainStep [], MainStep [], MainStep [],
      MainStep [Response 0], MainStep [], MainStep []]"

definition example_env :: startup_env where
  "example_env =
     \<lparr>LookPath = Inr ''/usr/bin/mopidy'', user_Current = Inr ''/home/me'',
      config_Load = (\<lambda>p. Inr []), gui_Init = (\<lambda>c. Inr example_gui)\<rparr>"

text \<open>Environments in which one of the three startup calls fails.\<close>

definition env_not_installed :: startup_env where
  "env_not_installed = example_env\<lparr>LookPath := Inl ''executable file not found in $PATH''\<rparr>"

definition env_no_user :: startup_env where
  "env_no_user = example_env\<lparr>user_Current := Inl ''user: unknown userid''\<rparr>"

definition env_no_config :: startup_env where
  "env_no_config = example_env\<lparr>config_Load := (\<lambda>p. Inl ''no such file or directory'')\<rparr>"

definition example_status_sys :: "unit status_sys" where
  "example_status_sys =
     \<lparr>Mopidy = Some example_mopidy, Config = None, Gui = Some example_gui, Errors = [],
      ShowingError = False, Work = [], Running = True, StatusLock = None,
      callers = (\<lambda>t. SsIdle), crashed = False\<rparr>"

section \<open>Properties\<close>

subsection \<open>Quit\<close>

lemma quit_kill_ok:
  assumes "Mopidy app = Some m" and "Cmd m = Some c"
  shows "\<exists>mid. quit_kill app = Inr mid \<and> Running mid = Running app
           \<and> process_handle mid = map_option Kill (Process c)
           \<and> (Process c = None \<longrightarrow> mid = app)
           \<and> Quit app = Inr (mid\<lparr>Running := False\<rparr>)"
  using assms by (cases "Process c") (simp_all add: quit_kill_def Quit_def process_handle_def)

lemma Quit_Inr_iff:
  "(\<exists>app'. Quit app = Inr app') = (\<exists>m c. Mopidy app = Some m \<and> Cmd m = Some c)"
  by (auto simp: Quit_def quit_kill_def split: option.splits sum.splits)

lemma Quit_Inl_iff:
  "(Quit app = Inl NilPointerDereference) = (\<not> (\<exists>m c. Mopidy app = Some m \<and> Cmd m = Some c))"
  by (auto simp: Quit_def quit_kill_def split: option.splits sum.splits)

lemma Quit_world_fields:
  fixes w :: "'u world"
  assumes "Quit w = Inr w'"
  shows "pc w' = pc w" and "exit_code w' = exit_code w" and "Work w' = Work w"
    and "Errors w' = Errors w" and "dialogs w' = dialogs w"
    and "ShowingError w' = ShowingError w" and "\<not> Running w'"
  using assms by (auto simp: Quit_def quit_kill_def split: sum.splits option.splits)

lemma work_select_keeps:
  "Running (work_select w) = Running w" "exit_code (work_select w) = exit_code w"
  "pc (work_select w) = pc w"
  by (simp_all add: work_select_def split: list.splits work.splits)

lemma error_select_keeps:
  "Running (error_select D w) = Running w" "exit_code (error_select D w) = exit_code w"
  "pc (error_select D w) = pc w"
  by (simp_all add: error_select_def NonFatal_def show_dialog_def Let_def
        split: list.splits prod.splits)

lemma quit_schedule:
  assumes "Mopidy w = Some m" and "Cmd m = Some c"
    and "pc w = LoopHead" and "Running w" and "exit_code w = None"
  shows "\<exists>w'. run D [MainStep [QuitSignal], MainStep [], MainStep [], MainStep evs] w = Some w'
            \<and> exit_code w' = Some 0"
proof -
  from quit_kill_ok[OF assms(1,2)] obtain mid
    where q: "Quit w = Inr (mid\<lparr>Running := False\<rparr>)" by blast
  let ?q = "mid\<lparr>Running := False\<rparr>"
  from Quit_world_fields[OF q] assms have f: "pc ?q = LoopHead" "exit_code ?q = None"
    by simp_all
  let ?w1 = "?q\<lparr>pc := WorkSelect\<rparr>"
  have s1: "step D (MainStep [QuitSignal]) w = Some ?w1"
    using assms q by (simp add: step_def main_step_def)
  let ?w2 = "(work_select ?w1)\<lparr>pc := ErrorSelect\<rparr>"
  have s2: "step D (MainStep []) ?w1 = Some ?w2"
    using f by (simp add: step_def main_step_def)
  have k2: "\<not> Running ?w2" "exit_code ?w2 = None"
    using f work_select_keeps[of ?w1] by simp_all
  let ?w3 = "(error_select D ?w2)\<lparr>pc := LoopHead\<rparr>"
  have s3: "step D (MainStep []) ?w2 = Some ?w3"
    using k2 by (simp add: step_def main_step_def)
  have k3: "\<not> Running ?w3" "exit_code ?w3 = None"
    using k2 error_select_keeps[of D ?w2] by simp_all
  have s4: "step D (MainStep evs) ?w3 = Some (?w3\<lparr>exit_code := Some 0\<rparr>)"
    using k3 by (simp add: step_def main_step_def)
  show ?thesis using s1 s2 s3 s4 by simp
qed

text \<open>
  C6. When the record of the supervised process and its command are there, \<^verbatim>\<open>Quit\<close> first
  kills the process if the handle is set and changes nothing if it is not, leaving
  \<^verbatim>\<open>Running\<close> as it was; only then it sets \<^verbatim>\<open>Running\<close> to false. When \<^verbatim>\<open>Quit\<close> is called from
  a callback during an iteration of the loop, the iteration is finished and the next test
  of \<^verbatim>\<open>Running\<close> ends the loop: \<^verbatim>\<open>main\<close> returns.
\<close>

theorem Quit_kills_then_stops:
  fixes w :: "'u world"
  assumes "Mopidy w = Some m" and "Cmd m = Some c"
  shows "(\<exists>mid. quit_kill w = Inr mid \<and> Running mid = Running w
            \<and> process_handle mid = map_option Kill (Process c)
            \<and> (Process c = None \<longrightarrow> mid = w)
            \<and> Quit w = Inr (mid\<lparr>Running := False\<rparr>))
       \<and> (pc w = LoopHead \<and> Running w \<and> exit_code w = None \<longrightarrow>
            (\<exists>w'. run D [MainStep [QuitSignal], MainStep [], MainStep [], MainStep evs] w = Some w'
                \<and> exit_code w' = Some 0))"
  using quit_kill_ok[OF assms] quit_schedule[OF assms] by blast

theorem Quit_kills_then_stops_witness:
  "Mopidy example_world = Some example_mopidy
   \<and> Cmd example_mopidy = Some \<lparr>Process = Some example_process\<rparr>
   \<and> Running example_world
   \<and> map_option process_handle (returned (Quit example_world)) = Some (Some (example_process\<lparr>killed := True\<rparr>))
   \<and> map_option Running (returned (Quit example_world)) = Some False
   \<and> map_option exit_code
       (run id [MainStep [QuitSignal], MainStep [], MainStep [], MainStep []] example_world)
     = Some (Some 0)"
proof -
  have m: "Mopidy example_world = Some example_mopidy"
    by (simp add: example_world_def)
  have c: "Cmd example_mopidy = Some \<lparr>Process = Some example_process\<rparr>"
    by (simp add: example_mopidy_def)
  have h: "pc example_world = LoopHead \<and> Running example_world \<and> exit_code example_world = None"
    by (simp add: example_world_def init_world_def)
  from Quit_kills_then_stops[OF m c, of id "[]"] h
  obtain mid w' where
    "process_handle mid = map_option Kill (Process \<lparr>Process = Some example_process\<rparr>)"
    "Quit example_world = Inr (mid\<lparr>Running := False\<rparr>)"
    "run id [MainStep [QuitSignal], MainStep [], MainStep [], MainStep []] example_world = Some w'"
    "exit_code w' = Some 0"
    by blast
  then show ?thesis using m c h
    by (simp add: returned_def process_handle_def Kill_def)
qed

text \<open>
  C9. \<^verbatim>\<open>Quit\<close> returns exactly when \<^verbatim>\<open>app.Mopidy\<close> and its field \<^verbatim>\<open>Cmd\<close> are not nil, whatever
  the handle \<^verbatim>\<open>Process\<close> is; in every other state it panics with a nil pointer dereference,
  and so it does in the application as \<^verbatim>\<open>main\<close> creates it, before the record exists.
\<close>

theorem Quit_needs_process_record:
  "((\<exists>app'. Quit app = Inr app') = (\<exists>m c. Mopidy app = Some m \<and> Cmd m = Some c))
   \<and> ((Quit app = Inl NilPointerDereference) = (\<not> (\<exists>m c. Mopidy app = Some m \<and> Cmd m = Some c)))
   \<and> Quit (init_world u) = Inl NilPointerDereference"
proof -
  have "Quit (init_world u) = Inl NilPointerDereference"
    by (simp add: Quit_Inl_iff) (simp add: init_world_def)
  then show ?thesis using Quit_Inr_iff[of app] Quit_Inl_iff[of app] by blast
qed

theorem Quit_needs_process_record_witness:
  "Quit (example_world\<lparr>Mopidy := None\<rparr>) = Inl NilPointerDereference
   \<and> Quit (example_world\<lparr>Mopidy := Some \<lparr>Cmd = None, Status = MopidyConnected\<rparr>\<rparr>)
       = Inl NilPointerDereference
   \<and> Quit (example_world\<lparr>Mopidy := Some \<lparr>Cmd = Some \<lparr>Process = None\<rparr>, Status = MopidyConnected\<rparr>\<rparr>)
       \<noteq> Inl NilPointerDereference"
  using Quit_needs_process_record[of "example_world\<lparr>Mopidy := None\<rparr>" "[]"]
    Quit_needs_process_record[of "example_world\<lparr>Mopidy := Some \<lparr>Cmd = None, Status = MopidyConnected\<rparr>\<rparr>" "[]"]
    Quit_needs_process_record[of "example_world\<lparr>Mopidy := Some \<lparr>Cmd = Some \<lparr>Process = None\<rparr>, Status = MopidyConnected\<rparr>\<rparr>" "[]"]
  by auto

subsection \<open>The steps of the loop\<close>

lemma dispatch_pc: "pc (dispatch e w) = pc w"
proof (cases e)
  case (Response i)
  then show ?thesis by (simp split: dialog_kind.splits)
next
  case QuitSignal
  then show ?thesis by (auto split: sum.splits dest: Quit_world_fields(1))
next
  case (OtherCallback g)
  then show ?thesis by simp
qed

lemma gtk_events_pc: "pc (gtk_events evs w) = pc w"
  by (induction evs arbitrary: w) (simp_all add: dispatch_pc)

lemma main_step_enabled: "exit_code w = None \<Longrightarrow> \<exists>w'. main_step D evs w = Some w'"
  by (simp add: main_step_def split: main_pc.splits)

lemma work_select_empty: "Work w = [] \<Longrightarrow> work_select w = w"
  by (simp add: work_select_def)

lemma error_select_empty: "Errors w = [] \<Longrightarrow> error_select D w = w"
  by (simp add: error_select_def)

lemma error_select_showing: "ShowingError w \<Longrightarrow> error_select D w = w"
  by (simp add: error_select_def)

lemma work_select_head:
  "Work w = x # q \<Longrightarrow> Work (work_select w) = q \<and> mem (work_select w) = work_body x (mem w)"
  by (cases x) (simp_all add: work_select_def)

lemma work_select_other:
  "Errors (work_select w) = Errors w" "dialogs (work_select w) = dialogs w"
  "ShowingError (work_select w) = ShowingError w" "bg (work_select w) = bg w"
  by (simp_all add: work_select_def split: list.splits work.splits)

lemma error_select_head:
  assumes "\<not> ShowingError w" and "Errors w = (s, e) # q"
  shows "ShowingError (error_select D w)" and "Errors (error_select D w) = q"
    and "dialogs (error_select D w)
           = dialogs w @ [\<lparr>kind = NonFatalDialog, message = e, destroyed = False\<rparr>]"
    and "mem (error_select D w) = D (mem w)" and "Work (error_select D w) = Work w"
  using assms by (simp_all add: error_select_def NonFatal_def show_dialog_def)

lemma iteration_steps:
  assumes "pc w = LoopHead" and "exit_code w = None" and "Running w"
    and "exit_code (gtk_events evs w) = None"
  shows "run D [MainStep evs, MainStep evs', MainStep evs''] w
           = Some ((error_select D ((work_select ((gtk_events evs w)\<lparr>pc := WorkSelect\<rparr>))
                      \<lparr>pc := ErrorSelect\<rparr>))\<lparr>pc := LoopHead\<rparr>)"
proof -
  let ?w1 = "(gtk_events evs w)\<lparr>pc := WorkSelect\<rparr>"
  let ?w2 = "(work_select ?w1)\<lparr>pc := ErrorSelect\<rparr>"
  have s1: "step D (MainStep evs) w = Some ?w1"
    using assms by (simp add: step_def main_step_def)
  have e1: "exit_code ?w1 = None" using assms by simp
  have s2: "step D (MainStep evs') ?w1 = Some ?w2"
    using e1 by (simp add: step_def main_step_def)
  have e2: "exit_code ?w2 = None" using e1 work_select_keeps(2)[of ?w1] by simp
  have s3: "step D (MainStep evs'') ?w2 = Some ((error_select D ?w2)\<lparr>pc := LoopHead\<rparr>)"
    using e2 by (simp add: step_def main_step_def)
  show ?thesis using s1 s2 s3 by simp
qed

text \<open>
  C8. While the process lives the main goroutine can always take its next step, whatever
  the two channels hold: a \<^verbatim>\<open>select\<close> on an empty channel changes nothing and goes on to the
  next statement, and an iteration that the events do not end is completed by three
  steps of the main goroutine alone, with no step of any sender.
\<close>

theorem selects_never_block:
  assumes "exit_code w = None"
  shows "(\<exists>w'. main_step D evs w = Some w')
       \<and> (pc w = WorkSelect \<and> Work w = [] \<longrightarrow> main_step D evs w = Some (w\<lparr>pc := ErrorSelect\<rparr>))
       \<and> (pc w = ErrorSelect \<and> Errors w = [] \<longrightarrow> main_step D evs w = Some (w\<lparr>pc := LoopHead\<rparr>))
       \<and> (pc w = LoopHead \<and> Running w \<and> exit_code (gtk_events evs w) = None \<longrightarrow>
            (\<exists>w'. run D [MainStep evs, MainStep evs', MainStep evs''] w = Some w'
                \<and> pc w' = LoopHead))"
proof -
  have a: "\<exists>w'. main_step D evs w = Some w'"
    using assms by (rule main_step_enabled)
  have b: "pc w = WorkSelect \<and> Work w = [] \<longrightarrow> main_step D evs w = Some (w\<lparr>pc := ErrorSelect\<rparr>)"
    using assms by (simp add: main_step_def work_select_empty)
  have c: "pc w = ErrorSelect \<and> Errors w = [] \<longrightarrow> main_step D evs w = Some (w\<lparr>pc := LoopHead\<rparr>)"
    using assms by (simp add: main_step_def error_select_empty)
  have d: "pc w = LoopHead \<and> Running w \<and> exit_code (gtk_events evs w) = None \<longrightarrow>
            (\<exists>w'. run D [MainStep evs, MainStep evs', MainStep evs''] w = Some w'
                \<and> pc w' = LoopHead)"
    using assms iteration_steps[of w evs D evs' evs''] by simp
  show ?thesis using a b c d by blast
qed

theorem selects_never_block_witness:
  "exit_code example_world = None
   \<and> Work example_world = [] \<and> Errors example_world = []
   \<and> main_step id [] (example_world\<lparr>pc := WorkSelect\<rparr>) = Some (example_world\<lparr>pc := ErrorSelect\<rparr>)
   \<and> main_step id [] (example_world\<lparr>pc := ErrorSelect\<rparr>) = Some (example_world\<lparr>pc := LoopHead\<rparr>)
   \<and> map_option pc (run id [MainStep [], MainStep [], MainStep []] example_world) = Some LoopHead"
proof -
  have h: "exit_code example_world = None" "Work example_world = []" "Errors example_world = []"
    "pc example_world = LoopHead" "Running example_world"
    by (simp_all add: example_world_def init_world_def)
  show ?thesis
    using h selects_never_block[of "example_world\<lparr>pc := WorkSelect\<rparr>" id "[]" "[]" "[]"]
      selects_never_block[of "example_world\<lparr>pc := ErrorSelect\<rparr>" id "[]" "[]" "[]"]
      selects_never_block[of example_world id "[]" "[]" "[]"]
    by auto
qed

text \<open>
  C3. An iteration that starts with \<^verbatim>\<open>Running\<close> true and that the events do not end takes
  three steps. The first dispatches the batch of events. The second takes at most the head
  of the work channel and runs it on the spot. The third does nothing when
  \<^verbatim>\<open>ShowingError\<close> is set or no error waits, and otherwise takes the head of the error
  channel, sets \<^verbatim>\<open>ShowingError\<close>, shows the dialog of \<^verbatim>\<open>NonFatal\<close> and calls \<^verbatim>\<open>Disable\<close>. Then the
  loop is at its test again, which ends \<^verbatim>\<open>main\<close> when \<^verbatim>\<open>Running\<close> is false.
\<close>

theorem iteration_order:
  assumes "pc w = LoopHead" and "exit_code w = None"
  shows "(\<not> Running w \<longrightarrow> main_step D evs w = Some (w\<lparr>exit_code := Some 0\<rparr>))
       \<and> (Running w \<and> exit_code (gtk_events evs w) = None \<longrightarrow>
            (\<exists>w1 w2 w3.
                w1 = (gtk_events evs w)\<lparr>pc := WorkSelect\<rparr>
              \<and> main_step D evs w = Some w1
              \<and> main_step D evs' w1 = Some w2 \<and> pc w2 = ErrorSelect
              \<and> (Work w1 = [] \<longrightarrow> w2 = w1\<lparr>pc := ErrorSelect\<rparr>)
              \<and> (\<forall>x q. Work w1 = x # q \<longrightarrow> Work w2 = q \<and> mem w2 = work_body x (mem w1))
              \<and> Errors w2 = Errors w1 \<and> dialogs w2 = dialogs w1
              \<and> ShowingError w2 = ShowingError w1
              \<and> main_step D evs'' w2 = Some w3 \<and> pc w3 = LoopHead
              \<and> (ShowingError w2 \<or> Errors w2 = [] \<longrightarrow> w3 = w2\<lparr>pc := LoopHead\<rparr>)
              \<and> (\<forall>s e q. \<not> ShowingError w2 \<and> Errors w2 = (s, e) # q \<longrightarrow>
                    ShowingError w3 \<and> Errors w3 = q
                    \<and> dialogs w3
                        = dialogs w2 @ [\<lparr>kind = NonFatalDialog, message = e, destroyed = False\<rparr>]
                    \<and> mem w3 = D (mem w2) \<and> Work w3 = Work w2)
              \<and> run D [MainStep evs, MainStep evs', MainStep evs''] w = Some w3))"
proof -
  have stop: "\<not> Running w \<longrightarrow> main_step D evs w = Some (w\<lparr>exit_code := Some 0\<rparr>)"
    using assms by (simp add: main_step_def)
  have go: "\<exists>w1 w2 w3.
                w1 = (gtk_events evs w)\<lparr>pc := WorkSelect\<rparr>
              \<and> main_step D evs w = Some w1
              \<and> main_step D evs' w1 = Some w2 \<and> pc w2 = ErrorSelect
              \<and> (Work w1 = [] \<longrightarrow> w2 = w1\<lparr>pc := ErrorSelect\<rparr>)
              \<and> (\<forall>x q. Work w1 = x # q \<longrightarrow> Work w2 = q \<and> mem w2 = work_body x (mem w1))
              \<and> Errors w2 = Errors w1 \<and> dialogs w2 = dialogs w1
              \<and> ShowingError w2 = ShowingError w1
              \<and> main_step D evs'' w2 = Some w3 \<and> pc w3 = LoopHead
              \<and> (ShowingError w2 \<or> Errors w2 = [] \<longrightarrow> w3 = w2\<lparr>pc := LoopHead\<rparr>)
              \<and> (\<forall>s e q. \<not> ShowingError w2 \<and> Errors w2 = (s, e) # q \<longrightarrow>
                    ShowingError w3 \<and> Errors w3 = q
                    \<and> dialogs w3
                        = dialogs w2 @ [\<lparr>kind = NonFatalDialog, message = e, destroyed = False\<rparr>]
                    \<and> mem w3 = D (mem w2) \<and> Work w3 = Work w2)
              \<and> run D [MainStep evs, MainStep evs', MainStep evs''] w = Some w3"
    if r: "Running w" and x: "exit_code (gtk_events evs w) = None"
  proof -
    let ?w1 = "(gtk_events evs w)\<lparr>pc := WorkSelect\<rparr>"
    let ?w2 = "(work_select ?w1)\<lparr>pc := ErrorSelect\<rparr>"
    let ?w3 = "(error_select D ?w2)\<lparr>pc := LoopHead\<rparr>"
    have e1: "exit_code ?w1 = None" using x by simp
    have e2: "exit_code ?w2 = None" using e1 work_select_keeps(2)[of ?w1] by simp
    have m1: "main_step D evs w = Some ?w1"
      using assms r by (simp add: main_step_def)
    have m2: "main_step D evs' ?w1 = Some ?w2"
      using e1 by (simp add: main_step_def)
    have m3: "main_step D evs'' ?w2 = Some ?w3"
      using e2 by (simp add: main_step_def)
    have p2: "Work ?w1 = [] \<longrightarrow> ?w2 = ?w1\<lparr>pc := ErrorSelect\<rparr>"
      by (simp add: work_select_empty)
    have p3: "\<forall>x q. Work ?w1 = x # q \<longrightarrow> Work ?w2 = q \<and> mem ?w2 = work_body x (mem ?w1)"
      using work_select_head[of ?w1] by simp
    have p4: "Errors ?w2 = Errors ?w1" "dialogs ?w2 = dialogs ?w1"
      "ShowingError ?w2 = ShowingError ?w1"
      using work_select_other[of ?w1] by simp_all
    have p5: "ShowingError ?w2 \<or> Errors ?w2 = [] \<longrightarrow> ?w3 = ?w2\<lparr>pc := LoopHead\<rparr>"
      using error_select_empty[of ?w2 D] error_select_showing[of ?w2 D] by auto
    have p6: "\<forall>s e q. \<not> ShowingError ?w2 \<and> Errors ?w2 = (s, e) # q \<longrightarrow>
                    ShowingError ?w3 \<and> Errors ?w3 = q
                    \<and> dialogs ?w3
                        = dialogs ?w2 @ [\<lparr>kind = NonFatalDialog, message = e, destroyed = False\<rparr>]
                    \<and> mem ?w3 = D (mem ?w2) \<and> Work ?w3 = Work ?w2"
      using error_select_head[of ?w2 _ _ _ D] by simp
    have r3: "run D [MainStep evs, MainStep evs', MainStep evs''] w = Some ?w3"
      using iteration_steps[OF assms r x] .
    have pcs: "pc ?w2 = ErrorSelect" "pc ?w3 = LoopHead" by simp_all
    show ?thesis
      using m1 m2 m3 p2 p3 p4 p5 p6 r3 pcs by blast
  qed
  then show ?thesis using stop by blast
qed

theorem iteration_order_witness:
  "pc example_busy = LoopHead \<and> exit_code example_busy = None \<and> Running example_busy
   \<and> map_option mem
        (run (logs ''disable'') [MainStep [OtherCallback (logs ''native'')], MainStep [], MainStep []]
           example_busy)
      = Some [''native'', ''work'', ''disable'']
   \<and> map_option dialogs
        (run (logs ''disable'') [MainStep [OtherCallback (logs ''native'')], MainStep [], MainStep []]
           example_busy)
      = Some [\<lparr>kind = NonFatalDialog, message = ''boom'', destroyed = False\<rparr>]
   \<and> map_option ShowingError
        (run (logs ''disable'') [MainStep [OtherCallback (logs ''native'')], MainStep [], MainStep []]
           example_busy)
      = Some True"
proof -
  let ?evs = "[OtherCallback (logs ''native'')]"
  have h: "pc example_busy = LoopHead" "exit_code example_busy = None" "Running example_busy"
    by (simp_all add: example_busy_def example_world_def init_world_def)
  have g: "gtk_events ?evs example_busy = example_busy\<lparr>mem := [''native'']\<rparr>"
    using h by (simp add: logs_def) (simp add: example_busy_def example_world_def init_world_def)
  have x: "exit_code (gtk_events ?evs example_busy) = None"
    using h g by simp
  have "Running example_busy \<and> exit_code (gtk_events ?evs example_busy) = None"
    using h x by simp
  with iteration_order[OF h(1,2), of "logs ''disable''" ?evs "[]" "[]"]
  have "\<exists>w1 w2 w3.
          w1 = (gtk_events ?evs example_busy)\<lparr>pc := WorkSelect\<rparr>
        \<and> main_step (logs ''disable'') ?evs example_busy = Some w1
        \<and> main_step (logs ''disable'') [] w1 = Some w2 \<and> pc w2 = ErrorSelect
        \<and> (Work w1 = [] \<longrightarrow> w2 = w1\<lparr>pc := ErrorSelect\<rparr>)
        \<and> (\<forall>x q. Work w1 = x # q \<longrightarrow> Work w2 = q \<and> mem w2 = work_body x (mem w1))
        \<and> Errors w2 = Errors w1 \<and> dialogs w2 = dialogs w1
        \<and> ShowingError w2 = ShowingError w1
        \<and> main_step (logs ''disable'') [] w2 = Some w3 \<and> pc w3 = LoopHead
        \<and> (ShowingError w2 \<or> Errors w2 = [] \<longrightarrow> w3 = w2\<lparr>pc := LoopHead\<rparr>)
        \<and> (\<forall>s e q. \<not> ShowingError w2 \<and> Errors w2 = (s, e) # q \<longrightarrow>
              ShowingError w3 \<and> Errors w3 = q
              \<and> dialogs w3
                  = dialogs w2 @ [\<lparr>kind = NonFatalDialog, message = e, destroyed = False\<rparr>]
              \<and> mem w3 = logs ''disable'' (mem w2) \<and> Work w3 = Work w2)
        \<and> run (logs ''disable'') [MainStep ?evs, MainStep [], MainStep []] example_busy = Some w3"
    by (rule mp[OF conjunct2])
  then obtain w1 w2 w3 where all:
    "w1 = (gtk_events ?evs example_busy)\<lparr>pc := WorkSelect\<rparr>
        \<and> main_step (logs ''disable'') ?evs example_busy = Some w1
        \<and> main_step (logs ''disable'') [] w1 = Some w2 \<and> pc w2 = ErrorSelect
        \<and> (Work w1 = [] \<longrightarrow> w2 = w1\<lparr>pc := ErrorSelect\<rparr>)
        \<and> (\<forall>x q. Work w1 = x # q \<longrightarrow> Work w2 = q \<and> mem w2 = work_body x (mem w1))
        \<and> Errors w2 = Errors w1 \<and> dialogs w2 = dialogs w1
        \<and> ShowingError w2 = ShowingError w1
        \<and> main_step (logs ''disable'') [] w2 = Some w3 \<and> pc w3 = LoopHead
        \<and> (ShowingError w2 \<or> Errors w2 = [] \<longrightarrow> w3 = w2\<lparr>pc := LoopHead\<rparr>)
        \<and> (\<forall>s e q. \<not> ShowingError w2 \<and> Errors w2 = (s, e) # q \<longrightarrow>
              ShowingError w3 \<and> Errors w3 = q
              \<and> dialogs w3
                  = dialogs w2 @ [\<lparr>kind = NonFatalDialog, message = e, destroyed = False\<rparr>]
              \<and> mem w3 = logs ''disable'' (mem w2) \<and> Work w3 = Work w2)
        \<and> run (logs ''disable'') [MainStep ?evs, MainStep [], MainStep []] example_busy = Some w3"
    by (elim exE)
  have w1: "w1 = (gtk_events ?evs example_busy)\<lparr>pc := WorkSelect\<rparr>"
    using all by (elim conjE)
  have wk: "\<forall>x q. Work w1 = x # q \<longrightarrow> Work w2 = q \<and> mem w2 = work_body x (mem w1)"
    using all by (elim conjE)
  have same1: "Errors w2 = Errors w1"
    using all by (elim conjE)
  have same2: "dialogs w2 = dialogs w1"
    using all by (elim conjE)
  have same3: "ShowingError w2 = ShowingError w1"
    using all by (elim conjE)
  have er: "\<forall>s e q. \<not> ShowingError w2 \<and> Errors w2 = (s, e) # q \<longrightarrow>
                    ShowingError w3 \<and> Errors w3 = q
                    \<and> dialogs w3
                        = dialogs w2 @ [\<lparr>kind = NonFatalDialog, message = e, destroyed = False\<rparr>]
                    \<and> mem w3 = logs ''disable'' (mem w2) \<and> Work w3 = Work w2"
    using all by (elim conjE)
  have r: "run (logs ''disable'') [MainStep ?evs, MainStep [], MainStep []] example_busy = Some w3"
    using all by (elim conjE)
  have f1: "Work w1 = [Closure (logs ''work'')]" "mem w1 = [''native'']"
    "Errors w1 = [(OtherGoroutine, ''boom'')]" "dialogs w1 = []" "\<not> ShowingError w1"
    unfolding w1 g by (simp_all add: example_busy_def example_world_def init_world_def)
  from wk f1 have m2: "mem w2 = [''native'', ''work'']" by (simp add: logs_def)
  from er same1 same2 same3 f1 have
    "ShowingError w3" "dialogs w3 = [\<lparr>kind = NonFatalDialog, message = ''boom'', destroyed = False\<rparr>]"
    "mem w3 = logs ''disable'' (mem w2)"
    by simp_all
  then show ?thesis using h r m2 by (simp add: logs_def)
qed

subsection \<open>Error dialogs\<close>

lemma filter_update_drop:
  "i < length ds \<Longrightarrow> P (ds ! i) \<Longrightarrow> \<not> P x
     \<Longrightarrow> Suc (length (filter P (ds[i := x]))) = length (filter P ds)"
proof (induction ds arbitrary: i)
  case Nil
  then show ?case by simp
next
  case (Cons d ds)
  then show ?case by (cases i) auto
qed

lemma filter_update_add:
  "i < length ds \<Longrightarrow> \<not> P (ds ! i) \<Longrightarrow> P x
     \<Longrightarrow> length (filter P (ds[i := x])) = Suc (length (filter P ds))"
proof (induction ds arbitrary: i)
  case Nil
  then show ?case by simp
next
  case (Cons d ds)
  then show ?case by (cases i) auto
qed

lemma filter_update_same:
  "i < length ds \<Longrightarrow> P x = P (ds ! i) \<Longrightarrow> f x = f (ds ! i)
     \<Longrightarrow> map f (filter P (ds[i := x])) = map f (filter P ds)"
proof (induction ds arbitrary: i)
  case Nil
  then show ?case by simp
next
  case (Cons d ds)
  then show ?case by (cases i) auto
qed

lemma nonfatal_split:
  "length (filter is_nonfatal ds)
     = length (filter visible_nonfatal ds) + length (filter dismissed_nonfatal ds)"
  by (induction ds) (auto simp: is_nonfatal_def visible_nonfatal_def dismissed_nonfatal_def)

lemma shown_count: "length (shown w) = length (visible w) + length (dismissed w)"
  by (simp add: shown_def visible_def dismissed_def nonfatal_split)

lemma dismiss_fields:
  assumes "i < length (dialogs w)" and "\<not> destroyed (dialogs w ! i)"
    and "kind (dialogs w ! i) = NonFatalDialog"
  shows "dispatch (Response i) w
           = w\<lparr>dialogs := (dialogs w)[i := (dialogs w ! i)\<lparr>destroyed := True\<rparr>],
               ShowingError := False\<rparr>"
    and "Suc (length (visible (dispatch (Response i) w))) = length (visible w)"
    and "length (dismissed (dispatch (Response i) w)) = Suc (length (dismissed w))"
    and "shown (dispatch (Response i) w) = shown w"
proof -
  let ?d = "(dialogs w ! i)\<lparr>destroyed := True\<rparr>"
  show eq: "dispatch (Response i) w
           = w\<lparr>dialogs := (dialogs w)[i := ?d], ShowingError := False\<rparr>"
    using assms by simp
  have v: "visible_nonfatal (dialogs w ! i)" "\<not> visible_nonfatal ?d"
    using assms by (simp_all add: visible_nonfatal_def)
  have d: "\<not> dismissed_nonfatal (dialogs w ! i)" "dismissed_nonfatal ?d"
    using assms by (simp_all add: dismissed_nonfatal_def)
  have n: "is_nonfatal ?d = is_nonfatal (dialogs w ! i)" "message ?d = message (dialogs w ! i)"
    by (simp_all add: is_nonfatal_def)
  show "Suc (length (visible (dispatch (Response i) w))) = length (visible w)"
    unfolding eq visible_def using filter_update_drop[OF assms(1) v] by simp
  show "length (dismissed (dispatch (Response i) w)) = Suc (length (dismissed w))"
    unfolding eq dismissed_def using filter_update_add[OF assms(1) d] by simp
  show "shown (dispatch (Response i) w) = shown w"
    unfolding eq shown_def using filter_update_same[OF assms(1) n] by simp
qed

lemma dispatch_other:
  assumes "\<not> (i < length (dialogs w) \<and> \<not> destroyed (dialogs w ! i)
              \<and> kind (dialogs w ! i) = NonFatalDialog)"
  shows "dialogs (dispatch (Response i) w) = dialogs w"
    and "ShowingError (dispatch (Response i) w) = ShowingError w"
  using assms by (auto split: dialog_kind.splits)

lemma dispatch_quit_dialogs:
  "dialogs (dispatch QuitSignal w) = dialogs w"
  "ShowingError (dispatch QuitSignal w) = ShowingError w"
  "Errors (dispatch QuitSignal w) = Errors w"
  by (auto split: sum.splits dest: Quit_world_fields)

lemma dispatch_Errors: "Errors (dispatch e w) = Errors w"
proof (cases e)
  case (Response i)
  then show ?thesis by (simp split: dialog_kind.splits)
next
  case QuitSignal
  then show ?thesis using dispatch_quit_dialogs(3)[of w] by simp
next
  case (OtherCallback g)
  then show ?thesis by simp
qed

lemma dispatch_cases:
  "(dialogs (dispatch e w) = dialogs w \<and> ShowingError (dispatch e w) = ShowingError w)
   \<or> (\<not> ShowingError (dispatch e w)
       \<and> Suc (length (visible (dispatch e w))) = length (visible w)
       \<and> length (dismissed (dispatch e w)) = Suc (length (dismissed w))
       \<and> shown (dispatch e w) = shown w)"
proof (cases e)
  case (Response i)
  show ?thesis
  proof (cases "i < length (dialogs w) \<and> \<not> destroyed (dialogs w ! i)
              \<and> kind (dialogs w ! i) = NonFatalDialog")
    case True
    then have "\<not> ShowingError (dispatch (Response i) w)"
      using dismiss_fields(1)[of i w] by simp
    then show ?thesis using True Response dismiss_fields(2,3,4)[of i w] by simp
  next
    case False
    then show ?thesis using Response dispatch_other[of i w] by simp
  qed
next
  case QuitSignal
  then show ?thesis using dispatch_quit_dialogs[of w] by simp
next
  case (OtherCallback g)
  then show ?thesis by simp
qed

lemma same_dialogs:
  "dialogs w' = dialogs w \<Longrightarrow>
     visible w' = visible w \<and> dismissed w' = dismissed w \<and> shown w' = shown w"
  by (simp add: visible_def dismissed_def shown_def)

lemma dispatch_one_dialog:
  assumes "one_dialog w"
  shows "one_dialog (dispatch e w)"
proof -
  from dispatch_cases[of e w] show ?thesis
  proof
    assume "dialogs (dispatch e w) = dialogs w \<and> ShowingError (dispatch e w) = ShowingError w"
    then show ?thesis
      using assms same_dialogs[of "dispatch e w" w] by (simp add: one_dialog_def)
  next
    assume a: "\<not> ShowingError (dispatch e w)
       \<and> Suc (length (visible (dispatch e w))) = length (visible w)
       \<and> length (dismissed (dispatch e w)) = Suc (length (dismissed w))
       \<and> shown (dispatch e w) = shown w"
    then have s: "Suc (length (visible (dispatch e w))) = length (visible w)"
      by blast
    from assms have "length (visible w) \<le> 1"
      by (simp add: one_dialog_def)
    with s have "length (visible (dispatch e w)) = 0"
      by arith
    then show ?thesis by (simp add: one_dialog_def)
  qed
qed

lemma dispatch_shown: "shown (dispatch e w) = shown w"
  using dispatch_cases[of e w] same_dialogs[of "dispatch e w" w] by auto

lemma dispatch_dismissed_mono: "length (dismissed w) \<le> length (dismissed (dispatch e w))"
  using dispatch_cases[of e w] same_dialogs[of "dispatch e w" w] by auto

lemma dispatch_reset:
  "ShowingError w \<Longrightarrow> \<not> ShowingError (dispatch e w)
     \<Longrightarrow> length (dismissed w) < length (dismissed (dispatch e w))"
  using dispatch_cases[of e w] by auto

lemma gtk_events_one_dialog: "one_dialog w \<Longrightarrow> one_dialog (gtk_events evs w)"
  by (induction evs arbitrary: w) (simp_all add: dispatch_one_dialog)

lemma gtk_events_shown: "shown (gtk_events evs w) = shown w"
  by (induction evs arbitrary: w) (simp_all add: dispatch_shown)

lemma gtk_events_Errors: "Errors (gtk_events evs w) = Errors w"
  by (induction evs arbitrary: w) (simp_all add: dispatch_Errors)

lemma gtk_events_dismissed_mono:
  "length (dismissed w) \<le> length (dismissed (gtk_events evs w))"
proof (induction evs arbitrary: w)
  case Nil
  then show ?case by simp
next
  case (Cons e evs)
  show ?case
    using Cons[of "dispatch e w"] dispatch_dismissed_mono[of w e] by simp
qed

lemma gtk_events_reset:
  "ShowingError w \<Longrightarrow> \<not> ShowingError (gtk_events evs w)
     \<Longrightarrow> length (dismissed w) < length (dismissed (gtk_events evs w))"
proof (induction evs arbitrary: w)
  case Nil
  then show ?case by simp
next
  case (Cons e evs)
  from Cons.prems have live: "exit_code w = None"
    by (cases "exit_code w = None") simp_all
  then have eq: "gtk_events (e # evs) w = gtk_events evs (dispatch e w)" by simp
  show ?case
  proof (cases "ShowingError (dispatch e w)")
    case True
    with Cons.IH[of "dispatch e w"] Cons.prems(2) eq
    have "length (dismissed (dispatch e w)) < length (dismissed (gtk_events (e # evs) w))"
      by simp
    then show ?thesis using dispatch_dismissed_mono[of w e] by simp
  next
    case False
    with dispatch_reset[OF Cons.prems(1)]
    have "length (dismissed w) < length (dismissed (dispatch e w))" by simp
    then show ?thesis
      using gtk_events_dismissed_mono[of "dispatch e w" evs] eq by simp
  qed
qed

lemma frame_pc [simp]:
  "visible (w\<lparr>pc := p\<rparr>) = visible w" "shown (w\<lparr>pc := p\<rparr>) = shown w"
  "dismissed (w\<lparr>pc := p\<rparr>) = dismissed w" "pending (w\<lparr>pc := p\<rparr>) = pending w"
  "one_dialog (w\<lparr>pc := p\<rparr>) = one_dialog w"
  by (simp_all add: visible_def shown_def dismissed_def pending_def one_dialog_def)

lemma frame_exit [simp]:
  "visible (w\<lparr>exit_code := x\<rparr>) = visible w" "shown (w\<lparr>exit_code := x\<rparr>) = shown w"
  "dismissed (w\<lparr>exit_code := x\<rparr>) = dismissed w" "pending (w\<lparr>exit_code := x\<rparr>) = pending w"
  "one_dialog (w\<lparr>exit_code := x\<rparr>) = one_dialog w"
  by (simp_all add: visible_def shown_def dismissed_def pending_def one_dialog_def)

lemma same_display:
  assumes "dialogs w' = dialogs w" and "ShowingError w' = ShowingError w"
  shows "visible w' = visible w" and "shown w' = shown w" and "dismissed w' = dismissed w"
    and "one_dialog w' = one_dialog w"
  using assms by (simp_all add: visible_def shown_def dismissed_def one_dialog_def)

lemma work_select_display:
  "visible (work_select w) = visible w" "shown (work_select w) = shown w"
  "dismissed (work_select w) = dismissed w" "one_dialog (work_select w) = one_dialog w"
  "pending (work_select w) = pending w"
  using same_display[of "work_select w" w] work_select_other[of w]
  by (simp_all add: pending_def)

lemma error_select_taken:
  assumes "\<not> ShowingError w" and "Errors w = (s, e) # q"
  shows "shown (error_select D w) = shown w @ [e]"
    and "pending (error_select D w) = map snd q"
    and "visible (error_select D w)
           = visible w @ [\<lparr>kind = NonFatalDialog, message = e, destroyed = False\<rparr>]"
    and "dismissed (error_select D w) = dismissed w"
  using error_select_head[OF assms, of D]
  by (simp_all add: shown_def pending_def visible_def dismissed_def is_nonfatal_def
        visible_nonfatal_def dismissed_nonfatal_def)

lemma error_select_cases:
  "error_select D w = w
   \<or> (\<not> ShowingError w \<and> ShowingError (error_select D w)
       \<and> shown (error_select D w) = shown w @ [hd (pending w)]
       \<and> pending (error_select D w) = tl (pending w) \<and> pending w \<noteq> []
       \<and> dismissed (error_select D w) = dismissed w
       \<and> (visible w = [] \<longrightarrow> length (visible (error_select D w)) = 1))"
proof (cases "ShowingError w \<or> Errors w = []")
  case True
  then show ?thesis using error_select_showing[of w D] error_select_empty[of w D] by auto
next
  case False
  then obtain s e q where q: "Errors w = (s, e) # q" by (cases "Errors w") auto
  from False have n: "\<not> ShowingError w" by simp
  have "pending w = e # map snd q" using q by (simp add: pending_def)
  then show ?thesis
    using error_select_taken[OF n q, of D] error_select_head(1)[OF n q, of D] n by simp
qed

lemma error_select_one_dialog:
  assumes "one_dialog w"
  shows "one_dialog (error_select D w)"
  using error_select_cases[of D w] assms by (auto simp: one_dialog_def)

lemma main_step_display:
  assumes "main_step D evs w = Some w'"
  shows "(one_dialog w \<longrightarrow> one_dialog w')
       \<and> shown w' @ pending w' = shown w @ pending w
       \<and> (length (pending w') < length (pending w) \<longrightarrow>
            \<not> ShowingError w \<and> ShowingError w' \<and> shown w' = shown w @ [hd (pending w)])
       \<and> (ShowingError w \<and> \<not> ShowingError w' \<longrightarrow>
            length (dismissed w) < length (dismissed w'))"
proof (cases "pc w")
  case LoopHead
  show ?thesis
  proof (cases "Running w")
    case True
    with LoopHead assms have w': "w' = (gtk_events evs w)\<lparr>pc := WorkSelect\<rparr>"
      by (simp add: main_step_def split: if_splits)
    have p: "pending w' = pending w"
      unfolding w' by (simp add: pending_def gtk_events_Errors)
    show ?thesis
      using p gtk_events_one_dialog[of w evs] gtk_events_shown[of evs w]
        gtk_events_reset[of w evs]
      unfolding w' by simp
  next
    case False
    with LoopHead assms have "w' = w\<lparr>exit_code := Some 0\<rparr>"
      by (simp add: main_step_def split: if_splits)
    then show ?thesis by simp
  qed
next
  case WorkSelect
  with assms have w': "w' = (work_select w)\<lparr>pc := ErrorSelect\<rparr>"
    by (simp add: main_step_def split: if_splits)
  show ?thesis
    unfolding w' using work_select_display[of w] work_select_other(3)[of w] by simp
next
  case ErrorSelect
  with assms have w': "w' = (error_select D w)\<lparr>pc := LoopHead\<rparr>"
    by (simp add: main_step_def split: if_splits)
  have a: "one_dialog w \<longrightarrow> one_dialog w'"
    unfolding w' using error_select_one_dialog[of w D] by simp
  from error_select_cases[of D w]
  have b: "shown w' @ pending w' = shown w @ pending w
       \<and> (length (pending w') < length (pending w) \<longrightarrow>
            \<not> ShowingError w \<and> ShowingError w' \<and> shown w' = shown w @ [hd (pending w)])
       \<and> (ShowingError w \<and> \<not> ShowingError w' \<longrightarrow>
            length (dismissed w) < length (dismissed w'))"
    unfolding w' by (cases "pending w") auto
  show ?thesis using a b by blast
qed

lemma step_display:
  assumes "step D a w = Some w'"
  shows "(one_dialog w \<longrightarrow> one_dialog w')
       \<and> shown w' @ pending w' = shown w @ pending w @ arrival a
       \<and> (length (pending w') < length (pending w) \<longrightarrow>
            \<not> ShowingError w \<and> ShowingError w' \<and> shown w' = shown w @ [hd (pending w)])
       \<and> (ShowingError w \<and> \<not> ShowingError w' \<longrightarrow>
            length (dismissed w) < length (dismissed w'))"
proof (cases a)
  case (MainStep evs)
  with assms have "main_step D evs w = Some w'"
    by (simp add: step_def split: if_splits)
  from main_step_display[OF this] MainStep show ?thesis by simp
next
  case (SendWork f)
  with assms have w': "w' = w\<lparr>Work := Work w @ [Closure f]\<rparr>"
    by (simp add: step_def split: if_splits)
  show ?thesis unfolding w' using SendWork
    by (simp add: visible_def shown_def dismissed_def pending_def one_dialog_def)
next
  case (SendError e)
  with assms have w': "w' = w\<lparr>Errors := Errors w @ [(OtherGoroutine, e)]\<rparr>"
    by (simp add: step_def split: if_splits)
  show ?thesis unfolding w' using SendError
    by (simp add: visible_def shown_def dismissed_def pending_def one_dialog_def)
next
  case (DoCall c f)
  with assms have w': "w' = w\<lparr>Work := Work w @ [DoWrapper c f], do_pc := (do_pc w)(c := Sending)\<rparr>"
    by (simp add: step_def Do_send_def split: if_splits)
  show ?thesis unfolding w' using DoCall
    by (simp add: visible_def shown_def dismissed_def pending_def one_dialog_def)
next
  case (DoReturn c)
  with assms have w': "w' = w\<lparr>done_chan := (done_chan w)(c := False),
                              do_pc := (do_pc w)(c := DoReturned)\<rparr>"
    by (simp add: step_def Do_receive_def split: if_splits)
  show ?thesis unfolding w' using DoReturn
    by (simp add: visible_def shown_def dismissed_def pending_def one_dialog_def)
next
  case (InitMopidyReturns m r)
  show ?thesis
  proof (cases r)
    case None
    with InitMopidyReturns assms have w': "w' = w\<lparr>Mopidy := m, bg := BgReady\<rparr>"
      by (simp add: step_def goroutine_init_def split: if_splits)
    show ?thesis unfolding w' using InitMopidyReturns None
      by (simp add: visible_def shown_def dismissed_def pending_def one_dialog_def)
  next
    case (Some e)
    with InitMopidyReturns assms
    have w': "w' = w\<lparr>Mopidy := m, Errors := Errors w @ [(StartupGoroutine, e)], bg := BgSending\<rparr>"
      by (simp add: step_def goroutine_init_def split: if_splits)
    show ?thesis unfolding w' using InitMopidyReturns Some
      by (simp add: visible_def shown_def dismissed_def pending_def one_dialog_def)
  qed
next
  case CallStartMopidy
  with assms have w': "w' = w\<lparr>bg := BgStarted\<rparr>"
    by (simp add: step_def goroutine_start_def split: if_splits)
  show ?thesis unfolding w' using CallStartMopidy
    by (simp add: visible_def shown_def dismissed_def pending_def one_dialog_def)
qed

lemma run_display:
  assumes "run D as w0 = Some w" and "one_dialog w0"
  shows "one_dialog w \<and> shown w @ pending w = shown w0 @ pending w0 @ arrivals as"
  using assms
proof (induction as arbitrary: w0)
  case Nil
  then show ?case by (simp add: arrivals_def)
next
  case (Cons a as)
  from Cons.prems(1) obtain w1 where s: "step D a w0 = Some w1" and r: "run D as w1 = Some w"
    by (auto split: option.splits)
  from step_display[OF s] Cons.prems(2)
  have o: "one_dialog w1" and e: "shown w1 @ pending w1 = shown w0 @ pending w0 @ arrival a"
    by simp_all
  from Cons.IH[OF r o] have "one_dialog w"
    and "shown w @ pending w = (shown w1 @ pending w1) @ arrivals as"
    by simp_all
  then show ?case using e by (simp add: arrivals_def)
qed

text \<open>
  C2. In every state that the goroutines can reach from a state with at most one dialog of
  \<^verbatim>\<open>NonFatal\<close> on the screen, at most one such dialog is on the screen, and \<^verbatim>\<open>ShowingError\<close> is
  set while it is. The errors shown so far, followed by those that wait on the channel, are
  the errors in the order of their arrival, and all dialogs but at most one have been
  dismissed. A step takes an error from the channel only when \<^verbatim>\<open>ShowingError\<close> is false,
  and then sets it and shows that error; a step resets \<^verbatim>\<open>ShowingError\<close> only by the
  dismissal of a dialog.
\<close>

theorem one_error_dialog_in_order:
  assumes "run D as w0 = Some w" and "one_dialog w0"
  shows "length (visible w) \<le> 1 \<and> (visible w \<noteq> [] \<longrightarrow> ShowingError w)
       \<and> shown w @ pending w = shown w0 @ pending w0 @ arrivals as
       \<and> length (shown w) \<le> Suc (length (dismissed w))
       \<and> (\<forall>a w'. step D a w = Some w' \<and> length (pending w') < length (pending w) \<longrightarrow>
             \<not> ShowingError w \<and> ShowingError w' \<and> shown w' = shown w @ [hd (pending w)])
       \<and> (\<forall>a w'. step D a w = Some w' \<and> ShowingError w \<and> \<not> ShowingError w' \<longrightarrow>
             length (dismissed w) < length (dismissed w'))"
proof -
  from run_display[OF assms] have o: "one_dialog w"
    and f: "shown w @ pending w = shown w0 @ pending w0 @ arrivals as"
    by simp_all
  from o have v: "length (visible w) \<le> 1" "visible w \<noteq> [] \<longrightarrow> ShowingError w"
    by (simp_all add: one_dialog_def)
  from v(1) have c: "length (shown w) \<le> Suc (length (dismissed w))"
    by (simp add: shown_count)
  have s: "\<forall>a w'. step D a w = Some w' \<and> length (pending w') < length (pending w) \<longrightarrow>
             \<not> ShowingError w \<and> ShowingError w' \<and> shown w' = shown w @ [hd (pending w)]"
    using step_display by blast
  have t: "\<forall>a w'. step D a w = Some w' \<and> ShowingError w \<and> \<not> ShowingError w' \<longrightarrow>
             length (dismissed w) < length (dismissed w')"
    using step_display by blast
  show ?thesis using v f c s t by blast
qed

theorem one_error_dialog_in_order_witness:
  "one_dialog example_world
   \<and> arrivals example_errors = [''first'', ''second'']
   \<and> (\<exists>w. run id example_errors example_world = Some w
          \<and> shown w = [''first'', ''second''] \<and> pending w = [] \<and> length (visible w) \<le> 1)"
proof -
  have o: "one_dialog example_world"
    by code_simp
  have a: "arrivals example_errors = [''first'', ''second'']"
    by code_simp
  have e: "shown example_world = []" "pending example_world = []"
    by code_simp+
  have "map_option pending (run id example_errors example_world) = Some []"
    by code_simp
  then obtain w where r: "run id example_errors example_world = Some w" and p: "pending w = []"
    by auto
  note t = one_error_dialog_in_order[OF r o]
  have v: "length (visible w) \<le> 1"
    using t by (elim conjE)
  have f: "shown w @ pending w = shown example_world @ pending example_world @ arrivals example_errors"
    using t by (elim conjE)
  from f p e a have "shown w = [''first'', ''second'']" by simp
  then show ?thesis using o a r p v by simp
qed

subsection \<open>Do\<close>

lemma wrapper_ids_append: "wrapper_ids (q @ r) = wrapper_ids q @ wrapper_ids r"
  by (induction q rule: wrapper_ids.induct) simp_all

lemma Quit_do_fields:
  fixes w :: "'u world"
  assumes "Quit w = Inr w'"
  shows "do_pc w' = do_pc w" and "executed w' = executed w" and "done_chan w' = done_chan w"
    and "mem w' = mem w" and "bg w' = bg w" and "main_level w' = main_level w"
  using assms by (auto simp: Quit_def quit_kill_def split: sum.splits option.splits)

lemma dispatch_do_fields:
  "Work (dispatch e w) = Work w" "do_pc (dispatch e w) = do_pc w"
  "executed (dispatch e w) = executed w" "done_chan (dispatch e w) = done_chan w"
proof -
  show "Work (dispatch e w) = Work w"
    by (cases e) (auto split: dialog_kind.splits sum.splits dest: Quit_world_fields(3))
  show "do_pc (dispatch e w) = do_pc w"
    by (cases e) (auto split: dialog_kind.splits sum.splits dest: Quit_do_fields(1))
  show "executed (dispatch e w) = executed w"
    by (cases e) (auto split: dialog_kind.splits sum.splits dest: Quit_do_fields(2))
  show "done_chan (dispatch e w) = done_chan w"
    by (cases e) (auto split: dialog_kind.splits sum.splits dest: Quit_do_fields(3))
qed

lemma gtk_events_do_fields:
  "Work (gtk_events evs w) = Work w \<and> do_pc (gtk_events evs w) = do_pc w
   \<and> executed (gtk_events evs w) = executed w \<and> done_chan (gtk_events evs w) = done_chan w"
  by (induction evs arbitrary: w) (simp_all add: dispatch_do_fields)

lemma do_inv_same:
  assumes "Work w' = Work w" and "do_pc w' = do_pc w" and "executed w' = executed w"
    and "done_chan w' = done_chan w"
  shows "do_inv w' = do_inv w"
  using assms by (simp add: do_inv_def)

lemma error_select_do_fields:
  "Work (error_select D w) = Work w" "do_pc (error_select D w) = do_pc w"
  "executed (error_select D w) = executed w" "done_chan (error_select D w) = done_chan w"
  by (simp_all add: error_select_def NonFatal_def show_dialog_def Let_def
        split: list.splits prod.splits)

lemma work_select_wrapper:
  assumes "Work w = DoWrapper c f # q"
  shows "work_select w
           = w\<lparr>Work := q, do_pc := (do_pc w)(c := Receiving), mem := f (mem w),
               executed := (executed w)(c := Suc (executed w c)),
               done_chan := (done_chan w)(c := True)\<rparr>"
  using assms by (simp add: work_select_def)

lemma work_select_do_inv:
  assumes "do_inv w"
  shows "do_inv (work_select w)"
proof (cases "Work w")
  case Nil
  then show ?thesis using assms by (simp add: work_select_empty)
next
  case (Cons x q)
  show ?thesis
  proof (cases x)
    case (Closure f)
    with Cons have "work_select w = w\<lparr>Work := q, mem := f (mem w)\<rparr>"
      by (simp add: work_select_def)
    then show ?thesis using assms Cons Closure by (simp add: do_inv_def)
  next
    case (DoWrapper c f)
    with Cons have wk: "Work w = DoWrapper c f # q" by simp
    from assms wk have d: "c \<notin> set (wrapper_ids q)" "distinct (wrapper_ids q)"
      and s: "do_pc w c = Sending"
      and all: "\<forall>c'. (c' \<in> set (wrapper_ids (Work w))) = (do_pc w c' = Sending)
             \<and> executed w c' = (if do_pc w c' = Receiving \<or> do_pc w c' = DoReturned then 1 else 0)
             \<and> done_chan w c' = (do_pc w c' = Receiving)"
      by (auto simp: do_inv_def)
    from all s have e0: "executed w c = 0" by auto
    have "\<forall>c'. (c' \<in> set (wrapper_ids q))
                  = (((do_pc w)(c := Receiving)) c' = Sending)
             \<and> ((executed w)(c := Suc (executed w c))) c'
                  = (if ((do_pc w)(c := Receiving)) c' = Receiving
                        \<or> ((do_pc w)(c := Receiving)) c' = DoReturned then 1 else 0)
             \<and> ((done_chan w)(c := True)) c' = (((do_pc w)(c := Receiving)) c' = Receiving)"
    proof
      fix c'
      show "(c' \<in> set (wrapper_ids q))
                  = (((do_pc w)(c := Receiving)) c' = Sending)
             \<and> ((executed w)(c := Suc (executed w c))) c'
                  = (if ((do_pc w)(c := Receiving)) c' = Receiving
                        \<or> ((do_pc w)(c := Receiving)) c' = DoReturned then 1 else 0)
             \<and> ((done_chan w)(c := True)) c' = (((do_pc w)(c := Receiving)) c' = Receiving)"
      proof (cases "c' = c")
        case True
        then show ?thesis using d e0 by simp
      next
        case False
        then show ?thesis using all[rule_format, of c'] wk by simp
      qed
    qed
    then show ?thesis
      unfolding work_select_wrapper[OF wk] using d by (simp add: do_inv_def)
  qed
qed

lemma main_step_do_inv:
  assumes "main_step D evs w = Some w'" and "do_inv w"
  shows "do_inv w'"
proof (cases "pc w")
  case LoopHead
  show ?thesis
  proof (cases "Running w")
    case True
    with LoopHead assms have w': "w' = (gtk_events evs w)\<lparr>pc := WorkSelect\<rparr>"
      by (simp add: main_step_def split: if_splits)
    have "do_inv w' = do_inv w"
      unfolding w' using gtk_events_do_fields[of evs w] by (intro do_inv_same) simp_all
    then show ?thesis using assms(2) by simp
  next
    case False
    with LoopHead assms have "w' = w\<lparr>exit_code := Some 0\<rparr>"
      by (simp add: main_step_def split: if_splits)
    then show ?thesis using assms(2) by (simp add: do_inv_def)
  qed
next
  case WorkSelect
  with assms have w': "w' = (work_select w)\<lparr>pc := ErrorSelect\<rparr>"
    by (simp add: main_step_def split: if_splits)
  have "do_inv w' = do_inv (work_select w)"
    unfolding w' by (intro do_inv_same) simp_all
  then show ?thesis using work_select_do_inv[OF assms(2)] by simp
next
  case ErrorSelect
  with assms have w': "w' = (error_select D w)\<lparr>pc := LoopHead\<rparr>"
    by (simp add: main_step_def split: if_splits)
  have "do_inv w' = do_inv w"
    unfolding w' using error_select_do_fields[of D w] by (intro do_inv_same) simp_all
  then show ?thesis using assms(2) by simp
qed

lemma step_do_inv:
  assumes "step D a w = Some w'" and "do_inv w"
  shows "do_inv w'"
proof (cases a)
  case (MainStep evs)
  with assms have "main_step D evs w = Some w'"
    by (simp add: step_def split: if_splits)
  then show ?thesis using assms(2) by (rule main_step_do_inv)
next
  case (SendWork f)
  with assms have w': "w' = w\<lparr>Work := Work w @ [Closure f]\<rparr>"
    by (simp add: step_def split: if_splits)
  show ?thesis unfolding w' using assms(2) by (simp add: do_inv_def wrapper_ids_append)
next
  case (SendError e)
  with assms have w': "w' = w\<lparr>Errors := Errors w @ [(OtherGoroutine, e)]\<rparr>"
    by (simp add: step_def split: if_splits)
  show ?thesis unfolding w' using assms(2) by (simp add: do_inv_def)
next
  case (DoCall c f)
  with assms have n: "do_pc w c = NotCalled"
    and w': "w' = w\<lparr>Work := Work w @ [DoWrapper c f], do_pc := (do_pc w)(c := Sending)\<rparr>"
    by (simp_all add: step_def Do_send_def split: if_splits)
  from assms(2) n have "c \<notin> set (wrapper_ids (Work w))"
    by (simp add: do_inv_def)
  then show ?thesis unfolding w' using assms(2) n
    by (auto simp: do_inv_def wrapper_ids_append)
next
  case (DoReturn c)
  with assms have n: "do_pc w c = Receiving"
    and w': "w' = w\<lparr>done_chan := (done_chan w)(c := False),
                    do_pc := (do_pc w)(c := DoReturned)\<rparr>"
    by (simp_all add: step_def Do_receive_def split: if_splits)
  show ?thesis unfolding w' using assms(2) n
    by (auto simp: do_inv_def)
next
  case (InitMopidyReturns m r)
  with assms have "Work w' = Work w" "do_pc w' = do_pc w" "executed w' = executed w"
    "done_chan w' = done_chan w"
    by (auto simp: step_def goroutine_init_def split: if_splits option.splits)
  then show ?thesis using assms(2) do_inv_same[of w' w] by simp
next
  case CallStartMopidy
  with assms have w': "w' = w\<lparr>bg := BgStarted\<rparr>"
    by (simp add: step_def goroutine_start_def split: if_splits)
  show ?thesis unfolding w' using assms(2) by (simp add: do_inv_def)
qed

lemma run_do_inv:
  assumes "run D as w0 = Some w" and "do_inv w0"
  shows "do_inv w"
  using assms
proof (induction as arbitrary: w0)
  case Nil
  then show ?case by simp
next
  case (Cons a as)
  from Cons.prems(1) obtain w1 where s: "step D a w0 = Some w1" and r: "run D as w1 = Some w"
    by (auto split: option.splits)
  from Cons.IH[OF r step_do_inv[OF s Cons.prems(2)]] show ?case .
qed

lemma no_call_begun_do_inv: "no_call_begun w \<Longrightarrow> do_inv w"
  by (simp add: no_call_begun_def do_inv_def)

lemma only_main_runs:
  assumes "step D a w = Some w'" and "\<forall>evs. a \<noteq> MainStep evs"
  shows "executed w' = executed w \<and> mem w' = mem w"
  using assms
  by (cases a)
     (auto simp: step_def Do_send_def Do_receive_def goroutine_init_def goroutine_start_def
        split: if_splits option.splits)

text \<open>
  C1. Starting where no call of \<^verbatim>\<open>Do\<close> has begun, in every state that the goroutines can
  reach: the function of a call has run at most once, not at all while the closure waits
  on the work channel, and exactly once when the call has returned. The call puts its
  closure at the end of the work channel. The main goroutine, when it takes the closure,
  runs the function and puts the value on \<^verbatim>\<open>done\<close>. The call returns only when \<^verbatim>\<open>done\<close> holds
  its value, which is after the function has run, and it is blocked before. No step other
  than one of the main goroutine runs a function or changes the state on which the
  functions act.
\<close>

theorem Do_runs_once_before_return:
  assumes "no_call_begun w0" and "run D as w0 = Some w"
  shows "executed w c \<le> 1
       \<and> (do_pc w c = DoReturned \<longrightarrow> executed w c = 1)
       \<and> (do_pc w c = Sending \<longrightarrow> executed w c = 0 \<and> c \<in> set (wrapper_ids (Work w)))
       \<and> (\<forall>f w'. Do_send c f w = Some w' \<longrightarrow>
             Work w' = Work w @ [DoWrapper c f] \<and> do_pc w' c = Sending)
       \<and> (\<forall>f q. pc w = WorkSelect \<and> exit_code w = None \<and> Work w = DoWrapper c f # q \<longrightarrow>
             (\<exists>w'. main_step D evs w = Some w' \<and> mem w' = f (mem w) \<and> Work w' = q
                  \<and> executed w' c = Suc (executed w c) \<and> done_chan w' c
                  \<and> do_pc w' c = Receiving))
       \<and> (\<forall>w'. Do_receive c w = Some w' \<longrightarrow>
             done_chan w c \<and> executed w c = 1 \<and> do_pc w' c = DoReturned)
       \<and> (\<not> done_chan w c \<longrightarrow> Do_receive c w = None)
       \<and> (\<forall>a w'. step D a w = Some w' \<and> (\<forall>evs. a \<noteq> MainStep evs) \<longrightarrow>
             executed w' = executed w \<and> mem w' = mem w)"
proof -
  from run_do_inv[OF assms(2) no_call_begun_do_inv[OF assms(1)]] have i: "do_inv w" .
  then have c: "(c \<in> set (wrapper_ids (Work w))) = (do_pc w c = Sending)"
    and e: "executed w c = (if do_pc w c = Receiving \<or> do_pc w c = DoReturned then 1 else 0)"
    and d: "done_chan w c = (do_pc w c = Receiving)"
    by (simp_all add: do_inv_def)
  have p1: "executed w c \<le> 1" using e by simp
  have p2: "do_pc w c = DoReturned \<longrightarrow> executed w c = 1" using e by simp
  have p3: "do_pc w c = Sending \<longrightarrow> executed w c = 0 \<and> c \<in> set (wrapper_ids (Work w))"
    using e c by simp
  have p4: "\<forall>f w'. Do_send c f w = Some w' \<longrightarrow>
             Work w' = Work w @ [DoWrapper c f] \<and> do_pc w' c = Sending"
    by (auto simp: Do_send_def split: if_splits)
  have p5: "\<forall>f q. pc w = WorkSelect \<and> exit_code w = None \<and> Work w = DoWrapper c f # q \<longrightarrow>
             (\<exists>w'. main_step D evs w = Some w' \<and> mem w' = f (mem w) \<and> Work w' = q
                  \<and> executed w' c = Suc (executed w c) \<and> done_chan w' c
                  \<and> do_pc w' c = Receiving)"
    by (simp add: main_step_def work_select_def)
  have p6: "\<forall>w'. Do_receive c w = Some w' \<longrightarrow>
             done_chan w c \<and> executed w c = 1 \<and> do_pc w' c = DoReturned"
    using e by (auto simp: Do_receive_def split: if_splits)
  have p7: "\<not> done_chan w c \<longrightarrow> Do_receive c w = None"
    by (simp add: Do_receive_def)
  have p8: "\<forall>a w'. step D a w = Some w' \<and> (\<forall>evs. a \<noteq> MainStep evs) \<longrightarrow>
             executed w' = executed w \<and> mem w' = mem w"
    using only_main_runs by blast
  show ?thesis using p1 p2 p3 p4 p5 p6 p7 p8 by blast
qed

theorem Do_runs_once_before_return_witness:
  "no_call_begun example_world
   \<and> run id [DoCall 0 (logs ''f''), DoReturn 0] example_world = None
   \<and> (\<exists>w. run id [DoCall 0 (logs ''f''), MainStep [], MainStep [], DoReturn 0] example_world = Some w
          \<and> do_pc w 0 = DoReturned \<and> executed w 0 = 1 \<and> mem w = [''f''])"
proof -
  have n: "no_call_begun example_world"
    by (simp add: no_call_begun_def example_world_def init_world_def)
  have b: "run id [DoCall 0 (logs ''f''), DoReturn 0] example_world = None"
    by code_simp
  have "map_option (\<lambda>w. (do_pc w 0, mem w))
          (run id [DoCall 0 (logs ''f''), MainStep [], MainStep [], DoReturn 0] example_world)
        = Some (DoReturned, [''f''])"
    by code_simp
  then obtain w
    where r: "run id [DoCall 0 (logs ''f''), MainStep [], MainStep [], DoReturn 0] example_world
                = Some w"
      and p: "do_pc w 0 = DoReturned" and m: "mem w = [''f'']"
    by auto
  note t = Do_runs_once_before_return[OF n r, of 0 "[]"]
  have "do_pc w 0 = DoReturned \<longrightarrow> executed w 0 = 1"
    using t by (elim conjE)
  with p have "executed w 0 = 1" by simp
  then show ?thesis using n b r p m by simp
qed

subsection \<open>The startup goroutine\<close>

lemma init_failure_sends:
  assumes "bg w = BgInit" and "exit_code w = None"
  shows "step D (InitMopidyReturns m (Some e)) w
           = Some (w\<lparr>Mopidy := m, Errors := Errors w @ [(StartupGoroutine, e)], bg := BgSending\<rparr>)"
    and "step D (InitMopidyReturns m None) w = Some (w\<lparr>Mopidy := m, bg := BgReady\<rparr>)"
  using assms by (simp_all add: step_def goroutine_init_def)

lemma blocked_in_send:
  "bg w = BgSending \<Longrightarrow> step D CallStartMopidy w = None"
  by (simp add: step_def goroutine_start_def)

lemma received_unblocks:
  assumes "pc w = ErrorSelect" and "exit_code w = None" and "\<not> ShowingError w"
    and "Errors w = (StartupGoroutine, e) # q"
  shows "\<exists>w'. step D (MainStep evs) w = Some w' \<and> bg w' = BgReady \<and> Errors w' = q
             \<and> exit_code w' = None \<and> shown w' = shown w @ [e]"
  using assms
  by (simp add: step_def main_step_def error_select_def NonFatal_def show_dialog_def shown_def
        is_nonfatal_def)

lemma ready_starts:
  assumes "bg w = BgReady" and "exit_code w = None"
  shows "step D CallStartMopidy w = Some (w\<lparr>bg := BgStarted\<rparr>)"
  using assms by (simp add: step_def goroutine_start_def)

lemma failure_schedule:
  assumes "bg w = BgInit" and "exit_code w = None" and "pc w = LoopHead" and "Running w"
    and "\<not> ShowingError w" and "Errors w = []"
  shows "\<exists>w'. run D [InitMopidyReturns m (Some e), MainStep [], MainStep [], MainStep [],
                     CallStartMopidy] w = Some w'
             \<and> bg w' = BgStarted \<and> shown w' = shown w @ [e]"
proof -
  let ?w1 = "w\<lparr>Mopidy := m, Errors := Errors w @ [(StartupGoroutine, e)], bg := BgSending\<rparr>"
  have s1: "step D (InitMopidyReturns m (Some e)) w = Some ?w1"
    using assms by (simp add: init_failure_sends)
  let ?w2 = "?w1\<lparr>pc := WorkSelect\<rparr>"
  have s2: "step D (MainStep []) ?w1 = Some ?w2"
    using assms by (simp add: step_def main_step_def)
  let ?w3 = "(work_select ?w2)\<lparr>pc := ErrorSelect\<rparr>"
  have s3: "step D (MainStep []) ?w2 = Some ?w3"
    using assms by (simp add: step_def main_step_def)
  have f3: "pc ?w3 = ErrorSelect" "exit_code ?w3 = None" "\<not> ShowingError ?w3"
    "Errors ?w3 = (StartupGoroutine, e) # []" "shown ?w3 = shown w"
    using assms work_select_keeps(2)[of ?w2] work_select_other[of ?w2]
      work_select_display(2)[of ?w2]
    by (simp_all add: shown_def)
  from received_unblocks[OF f3(1,2,3,4), of D "[]"] obtain w4
    where s4: "step D (MainStep []) ?w3 = Some w4" and b4: "bg w4 = BgReady"
      and x4: "exit_code w4 = None" and h4: "shown w4 = shown ?w3 @ [e]"
    by blast
  have s5: "step D CallStartMopidy w4 = Some (w4\<lparr>bg := BgStarted\<rparr>)"
    using b4 x4 by (rule ready_starts)
  have "shown (w4\<lparr>bg := BgStarted\<rparr>) = shown w @ [e]"
    using h4 f3(5) by (simp add: shown_def)
  then show ?thesis using s1 s2 s3 s4 s5 by simp
qed

text \<open>
  C10. When \<^verbatim>\<open>InitMopidy\<close> returns an error the goroutine puts it on the error channel and
  is blocked in that send. When the main loop takes the error the goroutine is about to
  call \<^verbatim>\<open>StartMopidy\<close>, and it then makes the call, as it does when \<^verbatim>\<open>InitMopidy\<close> returns no
  error. With the loop at its test and nothing showing, one iteration takes the error and
  the start follows.
\<close>

theorem init_failure_does_not_suppress_start:
  assumes "bg w = BgInit" and "exit_code w = None"
  shows "step D (InitMopidyReturns m (Some e)) w
           = Some (w\<lparr>Mopidy := m, Errors := Errors w @ [(StartupGoroutine, e)], bg := BgSending\<rparr>)
       \<and> step D (InitMopidyReturns m None) w = Some (w\<lparr>Mopidy := m, bg := BgReady\<rparr>)
       \<and> (\<forall>v q. pc v = ErrorSelect \<and> exit_code v = None \<and> \<not> ShowingError v
               \<and> Errors v = (StartupGoroutine, e) # q \<longrightarrow>
             (\<exists>v'. step D (MainStep evs) v = Some v' \<and> bg v' = BgReady \<and> Errors v' = q
                  \<and> exit_code v' = None \<and> shown v' = shown v @ [e]))
       \<and> (\<forall>v. bg v = BgSending \<longrightarrow> step D CallStartMopidy v = None)
       \<and> (\<forall>v. bg v = BgReady \<and> exit_code v = None \<longrightarrow>
             step D CallStartMopidy v = Some (v\<lparr>bg := BgStarted\<rparr>))
       \<and> (pc w = LoopHead \<and> Running w \<and> \<not> ShowingError w \<and> Errors w = [] \<longrightarrow>
             (\<exists>w'. run D [InitMopidyReturns m (Some e), MainStep [], MainStep [], MainStep [],
                          CallStartMopidy] w = Some w'
                  \<and> bg w' = BgStarted \<and> shown w' = shown w @ [e]))"
proof -
  note a = init_failure_sends(1)[OF assms, of D m e] init_failure_sends(2)[OF assms, of D m]
  have c: "\<forall>v q. pc v = ErrorSelect \<and> exit_code v = None \<and> \<not> ShowingError v
               \<and> Errors v = (StartupGoroutine, e) # q \<longrightarrow>
             (\<exists>v'. step D (MainStep evs) v = Some v' \<and> bg v' = BgReady \<and> Errors v' = q
                  \<and> exit_code v' = None \<and> shown v' = shown v @ [e])"
    using received_unblocks by blast
  have d: "\<forall>v. bg v = BgReady \<and> exit_code v = None \<longrightarrow>
             step D CallStartMopidy v = Some (v\<lparr>bg := BgStarted\<rparr>)"
    using ready_starts by blast
  have f: "pc w = LoopHead \<and> Running w \<and> \<not> ShowingError w \<and> Errors w = [] \<longrightarrow>
             (\<exists>w'. run D [InitMopidyReturns m (Some e), MainStep [], MainStep [], MainStep [],
                          CallStartMopidy] w = Some w'
                  \<and> bg w' = BgStarted \<and> shown w' = shown w @ [e])"
    using failure_schedule[OF assms, of D m e] by blast
  have b: "\<forall>v. bg v = BgSending \<longrightarrow> step D CallStartMopidy v = None"
    using blocked_in_send by blast
  show ?thesis using a b c d f by blast
qed

theorem init_failure_does_not_suppress_start_witness:
  "bg example_world = BgInit \<and> exit_code example_world = None
   \<and> (\<exists>w. run id [InitMopidyReturns (Some example_mopidy) (Some ''no mopidy''),
                   MainStep [], MainStep [], MainStep [], CallStartMopidy] example_world = Some w
          \<and> bg w = BgStarted \<and> shown w = [''no mopidy''])"
proof -
  have h: "bg example_world = BgInit" "exit_code example_world = None"
    and g: "pc example_world = LoopHead \<and> Running example_world \<and> \<not> ShowingError example_world
            \<and> Errors example_world = []"
    and s: "shown example_world = []"
    by (simp_all add: example_world_def init_world_def shown_def)
  note t = init_failure_does_not_suppress_start[OF h, of id "Some example_mopidy" "''no mopidy''" "[]"]
  have "pc example_world = LoopHead \<and> Running example_world \<and> \<not> ShowingError example_world
          \<and> Errors example_world = [] \<longrightarrow>
        (\<exists>w'. run id [InitMopidyReturns (Some example_mopidy) (Some ''no mopidy''),
                     MainStep [], MainStep [], MainStep [], CallStartMopidy] example_world = Some w'
             \<and> bg w' = BgStarted \<and> shown w' = shown example_world @ [''no mopidy''])"
    using t by (elim conjE)
  with g s h show ?thesis by simp
qed

subsection \<open>Fatal\<close>

lemma gtk_events_exited: "exit_code w \<noteq> None \<Longrightarrow> gtk_events evs w = w"
  by (cases evs) auto

lemma dispatch_exit_codes:
  assumes "exit_code w = None"
  shows "exit_code (dispatch e w) = None \<or> exit_code (dispatch e w) = Some 1
     \<or> exit_code (dispatch e w) = Some 2"
proof (cases e)
  case (Response i)
  then show ?thesis using assms by (simp split: dialog_kind.splits)
next
  case QuitSignal
  then show ?thesis using assms
    by (auto split: sum.splits dest: Quit_world_fields(2))
next
  case (OtherCallback g)
  then show ?thesis using assms by simp
qed

lemma gtk_events_exit_codes:
  "exit_code w = None \<Longrightarrow>
     exit_code (gtk_events evs w) = None \<or> exit_code (gtk_events evs w) = Some 1
     \<or> exit_code (gtk_events evs w) = Some 2"
proof (induction evs arbitrary: w)
  case Nil
  then show ?case by simp
next
  case (Cons e evs)
  show ?case
  proof (cases "exit_code (dispatch e w) = None")
    case True
    from Cons.IH[OF True] Cons.prems show ?thesis by simp
  next
    case False
    then have "gtk_events evs (dispatch e w) = dispatch e w"
      by (rule gtk_events_exited)
    then show ?thesis using dispatch_exit_codes[OF Cons.prems, of e] Cons.prems by simp
  qed
qed

lemma dispatch_dialog_texts:
  "map kind (dialogs (dispatch e w)) = map kind (dialogs w)"
  "map message (dialogs (dispatch e w)) = map message (dialogs w)"
proof -
  have u: "\<And>i. i < length (dialogs w) \<Longrightarrow>
      map kind ((dialogs w)[i := (dialogs w ! i)\<lparr>destroyed := True\<rparr>]) = map kind (dialogs w)
      \<and> map message ((dialogs w)[i := (dialogs w ! i)\<lparr>destroyed := True\<rparr>])
          = map message (dialogs w)"
    by (simp add: map_update list_update_same_conv)
  show "map kind (dialogs (dispatch e w)) = map kind (dialogs w)"
    using u by (cases e) (auto simp: dispatch_quit_dialogs(1) split: dialog_kind.splits sum.splits dest: Quit_world_fields(5))
  show "map message (dialogs (dispatch e w)) = map message (dialogs w)"
    using u by (cases e) (auto simp: dispatch_quit_dialogs(1) split: dialog_kind.splits sum.splits dest: Quit_world_fields(5))
qed

lemma gtk_events_dialog_texts:
  "map kind (dialogs (gtk_events evs w)) = map kind (dialogs w)
   \<and> map message (dialogs (gtk_events evs w)) = map message (dialogs w)"
  by (induction evs arbitrary: w) (simp_all add: dispatch_dialog_texts)

lemma dispatch_main_level: "main_level (dispatch e w) = main_level w"
  by (cases e) (auto split: dialog_kind.splits sum.splits dest: Quit_do_fields(6))

lemma gtk_events_main_level: "main_level (gtk_events evs w) = main_level w"
  by (induction evs arbitrary: w) (simp_all add: dispatch_main_level)

lemma dismiss_fatal:
  "fatal_visible i v \<Longrightarrow> dispatch (Response i) v = v\<lparr>exit_code := Some 1\<rparr>"
  by (simp add: fatal_visible_def)

lemma dispatch_fatal_visible:
  assumes "fatal_visible i w"
  shows "fatal_visible i (dispatch e w)"
proof (cases e)
  case (Response j)
  show ?thesis
  proof (cases "j < length (dialogs w) \<and> \<not> destroyed (dialogs w ! j)
              \<and> kind (dialogs w ! j) = NonFatalDialog")
    case True
    with assms have "j \<noteq> i" by (auto simp: fatal_visible_def)
    then show ?thesis using assms True Response
      by (simp add: fatal_visible_def)
  next
    case False
    then show ?thesis using assms Response dispatch_other(1)[of j w]
      by (simp add: fatal_visible_def)
  qed
next
  case QuitSignal
  then show ?thesis using assms dispatch_quit_dialogs(1)[of w]
    by (simp add: fatal_visible_def)
next
  case (OtherCallback g)
  then show ?thesis using assms by (simp add: fatal_visible_def)
qed

lemma gtk_events_dismiss_fatal:
  assumes "fatal_visible i w" and "exit_code w = None" and "Response i \<in> set evs"
  shows "exit_code (gtk_events evs w) \<noteq> None"
  using assms
proof (induction evs arbitrary: w)
  case Nil
  then show ?case by simp
next
  case (Cons e evs)
  show ?case
  proof (cases "exit_code (dispatch e w) = None")
    case True
    have "e \<noteq> Response i"
      using True dismiss_fatal[OF Cons.prems(1)] by auto
    with Cons.prems(3) have "Response i \<in> set evs" by simp
    from Cons.IH[OF dispatch_fatal_visible[OF Cons.prems(1)] True this] Cons.prems(2)
    show ?thesis by simp
  next
    case False
    then have "gtk_events evs (dispatch e w) = dispatch e w"
      by (rule gtk_events_exited)
    then show ?thesis using False Cons.prems(2) by simp
  qed
qed

lemma gtk_Main_dismissed:
  assumes "fatal_visible i w" and "exit_code w = None" and "Response i \<in> set evs"
  shows "exit_code (gtk_Main evs w) = Some 1 \<or> exit_code (gtk_Main evs w) = Some 2"
proof -
  let ?w = "w\<lparr>main_level := Suc (main_level w)\<rparr>"
  have f: "fatal_visible i ?w" "exit_code ?w = None"
    using assms by (simp_all add: fatal_visible_def)
  from gtk_events_dismiss_fatal[OF f assms(3)] gtk_events_exit_codes[OF f(2), of evs]
  show ?thesis by (auto simp: gtk_Main_def)
qed

lemma show_fatal:
  "dialogs (show_dialog FatalDialog e w)
     = dialogs w @ [\<lparr>kind = FatalDialog, message = e, destroyed = False\<rparr>]"
  "fatal_visible (length (dialogs w)) (show_dialog FatalDialog e w)"
  "exit_code (show_dialog FatalDialog e w) = exit_code w"
  "main_level (show_dialog FatalDialog e w) = main_level w"
  by (simp_all add: show_dialog_def fatal_visible_def)

lemma Fatal_nested:
  "main_level w = 0 \<Longrightarrow>
     Fatal e evs w = NotReturned (gtk_Main evs (show_dialog FatalDialog e w))"
  by (simp add: Fatal_def show_dialog_def)

lemma Fatal_returns:
  "main_level w \<noteq> 0 \<Longrightarrow> Fatal e evs w = Returned (show_dialog FatalDialog e w)"
  by (simp add: Fatal_def show_dialog_def)

text \<open>
  C4. \<^verbatim>\<open>Fatal\<close> shows a dialog with the message of the error, and the response to that
  dialog ends the process with status 1, in whatever state it arrives. When the nesting
  level of the toolkit's loop is zero, \<^verbatim>\<open>Fatal\<close> runs the loop itself and does not return: the
  level is one while the process lives, and once the response to the dialog is among the
  events the process has ended with a status that is not zero. When a loop is active
  \<^verbatim>\<open>Fatal\<close> returns with the dialog shown. Nothing is assumed about where \<^verbatim>\<open>main\<close> stands.
\<close>

theorem Fatal_exits_on_dismissal:
  assumes "exit_code w = None"
  shows "dialogs (show_dialog FatalDialog e w)
           = dialogs w @ [\<lparr>kind = FatalDialog, message = e, destroyed = False\<rparr>]
       \<and> fatal_visible (length (dialogs w)) (show_dialog FatalDialog e w)
       \<and> (\<forall>i v. fatal_visible i v \<longrightarrow> dispatch (Response i) v = v\<lparr>exit_code := Some 1\<rparr>)
       \<and> (main_level w = 0 \<longrightarrow>
            Fatal e evs w = NotReturned (gtk_Main evs (show_dialog FatalDialog e w))
            \<and> main_level (gtk_Main evs (show_dialog FatalDialog e w)) = 1
            \<and> (Response (length (dialogs w)) \<in> set evs \<longrightarrow>
                 exit_code (gtk_Main evs (show_dialog FatalDialog e w)) = Some 1
                 \<or> exit_code (gtk_Main evs (show_dialog FatalDialog e w)) = Some 2))
       \<and> (main_level w \<noteq> 0 \<longrightarrow> Fatal e evs w = Returned (show_dialog FatalDialog e w))"
proof -
  let ?s = "show_dialog FatalDialog e w"
  have x: "exit_code ?s = None" using assms by (simp add: show_fatal)
  have a: "\<forall>i v. fatal_visible i v \<longrightarrow> dispatch (Response i) v = v\<lparr>exit_code := Some 1\<rparr>"
    using dismiss_fatal by blast
  have b: "main_level w = 0 \<longrightarrow> main_level (gtk_Main evs ?s) = 1"
    by (simp add: gtk_Main_def gtk_events_main_level show_fatal)
  have c: "Response (length (dialogs w)) \<in> set evs \<longrightarrow>
             exit_code (gtk_Main evs ?s) = Some 1 \<or> exit_code (gtk_Main evs ?s) = Some 2"
    using gtk_Main_dismissed[OF show_fatal(2) x] by blast
  show ?thesis
    using a b c show_fatal(1)[of e w] show_fatal(2)[of w e] Fatal_nested[of w e evs]
      Fatal_returns[of w e evs]
    by blast
qed

theorem Fatal_exits_on_dismissal_witness:
  "exit_code example_world = None \<and> main_level example_world = 0
   \<and> \<not> has_returned (Fatal ''disk full'' [OtherCallback (logs ''redraw''), Response 0] example_world)
   \<and> exit_code (flow_state
        (Fatal ''disk full'' [OtherCallback (logs ''redraw''), Response 0] example_world)) = Some 1
   \<and> map message (dialogs (flow_state
        (Fatal ''disk full'' [OtherCallback (logs ''redraw''), Response 0] example_world)))
      = [''disk full'']
   \<and> has_returned (Fatal ''disk full'' [] (example_world\<lparr>main_level := 1\<rparr>))"
proof -
  let ?evs = "[OtherCallback (logs ''redraw''), Response 0]"
  have x: "exit_code example_world = None" and m: "main_level example_world = 0"
    by (simp_all add: example_world_def init_world_def)
  note t = Fatal_exits_on_dismissal[OF x, of "''disk full''" ?evs]
  have "main_level example_world = 0 \<longrightarrow>
            Fatal ''disk full'' ?evs example_world
              = NotReturned (gtk_Main ?evs (show_dialog FatalDialog ''disk full'' example_world))
            \<and> main_level (gtk_Main ?evs (show_dialog FatalDialog ''disk full'' example_world)) = 1
            \<and> (Response (length (dialogs example_world)) \<in> set ?evs \<longrightarrow>
                 exit_code (gtk_Main ?evs (show_dialog FatalDialog ''disk full'' example_world)) = Some 1
                 \<or> exit_code (gtk_Main ?evs (show_dialog FatalDialog ''disk full'' example_world)) = Some 2)"
    using t by (elim conjE)
  with m have n: "\<not> has_returned (Fatal ''disk full'' ?evs example_world)"
    by simp
  have e: "exit_code (flow_state (Fatal ''disk full'' ?evs example_world)) = Some 1"
    by code_simp
  have d: "map message (dialogs (flow_state (Fatal ''disk full'' ?evs example_world)))
             = [''disk full'']"
    by code_simp
  have r: "has_returned (Fatal ''disk full'' [] (example_world\<lparr>main_level := 1\<rparr>))"
    by (simp add: Fatal_def show_dialog_def)
  show ?thesis using x m n e d r by simp
qed

subsection \<open>Startup\<close>

lemma init_world_fields:
  "main_level (init_world u) = 0" "exit_code (init_world u) = None"
  "Errors (init_world u) = []" "dialogs (init_world u) = []"
  by (simp_all add: init_world_def)

lemma startup_not_installed:
  assumes "LookPath env = Inl e"
  shows "main_startup env u evs = Fatal ''Mopidy is not installed.'' evs (init_world u)"
  using assms
  by (simp add: main_startup_def check_installed_def Fatal_nested init_world_fields)

lemma startup_no_user:
  assumes "LookPath env = Inr p" and "user_Current env = Inl e"
  shows "main_startup env u evs = Fatal e evs (init_world u)"
  using assms
  by (simp add: main_startup_def check_installed_def find_config_def Fatal_nested
        init_world_fields)

lemma startup_no_config:
  assumes "LookPath env = Inr p" and "user_Current env = Inr h"
    and "config_Load env (config_path h) = Inl e"
  shows "main_startup env u evs = Fatal e evs (init_world u)"
  using assms
  by (simp add: main_startup_def check_installed_def find_config_def load_config_def
        Fatal_nested init_world_fields)

lemma fatal_at_startup:
  "\<exists>w. Fatal e evs (init_world u) = NotReturned w \<and> Errors w = [] \<and> shown w = []
      \<and> map kind (dialogs w) = [FatalDialog] \<and> map message (dialogs w) = [e]
      \<and> (Response 0 \<in> set evs \<longrightarrow> exit_code w = Some 1 \<or> exit_code w = Some 2)"
proof -
  let ?s = "show_dialog FatalDialog e (init_world u)"
  let ?n = "?s\<lparr>main_level := Suc (main_level ?s)\<rparr>"
  let ?w = "gtk_Main evs ?s"
  have w: "?w = gtk_events evs ?n" by (simp add: gtk_Main_def)
  have a: "Fatal e evs (init_world u) = NotReturned ?w"
    by (simp add: Fatal_nested init_world_fields)
  have b: "Errors ?w = []"
    unfolding w gtk_events_Errors by (simp add: show_dialog_def init_world_fields)
  have c: "shown ?w = []"
    unfolding w gtk_events_shown
    by (simp add: shown_def show_dialog_def init_world_fields is_nonfatal_def)
  have d: "map kind (dialogs ?w) = [FatalDialog]" "map message (dialogs ?w) = [e]"
    unfolding w using gtk_events_dialog_texts[of evs ?n]
    by (simp_all add: show_dialog_def init_world_fields)
  have f: "fatal_visible 0 ?s" "exit_code ?s = None"
    using show_fatal(2)[of "init_world u" e] by (simp_all add: show_fatal init_world_fields)
  have g: "Response 0 \<in> set evs \<longrightarrow> exit_code ?w = Some 1 \<or> exit_code ?w = Some 2"
    using gtk_Main_dismissed[OF f] by blast
  show ?thesis using a b c d g by auto
qed

text \<open>
  C7. When the executable is not found, when the current user is not found, or when the
  configuration does not load, \<^verbatim>\<open>main\<close> is the call of \<^verbatim>\<open>Fatal\<close> in the new application, with the
  fixed message in the first case and with the error in the other two. That call does not
  return; it shows the one dialog of \<^verbatim>\<open>Fatal\<close>, puts nothing on the error channel and shows
  no dialog of \<^verbatim>\<open>NonFatal\<close>, and once the dialog has its response the process has ended with
  a status that is not zero.
\<close>

theorem startup_failures_are_fatal:
  "(\<forall>e. LookPath env = Inl e \<longrightarrow>
      main_startup env u evs = Fatal ''Mopidy is not installed.'' evs (init_world u))
   \<and> (\<forall>p e. LookPath env = Inr p \<and> user_Current env = Inl e \<longrightarrow>
         main_startup env u evs = Fatal e evs (init_world u))
   \<and> (\<forall>p h e. LookPath env = Inr p \<and> user_Current env = Inr h
           \<and> config_Load env (config_path h) = Inl e \<longrightarrow>
         main_startup env u evs = Fatal e evs (init_world u))
   \<and> (\<forall>e. \<exists>w. Fatal e evs (init_world u) = NotReturned w \<and> Errors w = [] \<and> shown w = []
         \<and> map kind (dialogs w) = [FatalDialog] \<and> map message (dialogs w) = [e]
         \<and> (Response 0 \<in> set evs \<longrightarrow> exit_code w = Some 1 \<or> exit_code w = Some 2))"
proof -
  have a: "\<forall>e. LookPath env = Inl e \<longrightarrow>
      main_startup env u evs = Fatal ''Mopidy is not installed.'' evs (init_world u)"
    by (intro allI impI) (rule startup_not_installed)
  have b: "\<forall>p e. LookPath env = Inr p \<and> user_Current env = Inl e \<longrightarrow>
         main_startup env u evs = Fatal e evs (init_world u)"
    by (intro allI impI, elim conjE) (rule startup_no_user)
  have c: "\<forall>p h e. LookPath env = Inr p \<and> user_Current env = Inr h
           \<and> config_Load env (config_path h) = Inl e \<longrightarrow>
         main_startup env u evs = Fatal e evs (init_world u)"
    by (intro allI impI, elim conjE) (rule startup_no_config)
  have d: "\<forall>e. \<exists>w. Fatal e evs (init_world u) = NotReturned w \<and> Errors w = [] \<and> shown w = []
         \<and> map kind (dialogs w) = [FatalDialog] \<and> map message (dialogs w) = [e]
         \<and> (Response 0 \<in> set evs \<longrightarrow> exit_code w = Some 1 \<or> exit_code w = Some 2)"
    by (intro allI) (rule fatal_at_startup)
  show ?thesis using a b c d by (intro conjI)
qed

theorem startup_failures_are_fatal_witness:
  "\<not> has_returned (main_startup env_not_installed ([]::string list) [Response 0])
   \<and> exit_code (flow_state (main_startup env_not_installed ([]::string list) [Response 0])) = Some 1
   \<and> Errors (flow_state (main_startup env_not_installed ([]::string list) [Response 0])) = []
   \<and> map message (dialogs (flow_state (main_startup env_not_installed ([]::string list) [Response 0])))
        = [''Mopidy is not installed.'']
   \<and> \<not> has_returned (main_startup env_no_user ([]::string list) [Response 0])
   \<and> exit_code (flow_state (main_startup env_no_user ([]::string list) [Response 0])) = Some 1
   \<and> map message (dialogs (flow_state (main_startup env_no_user ([]::string list) [Response 0])))
        = [''user: unknown userid'']
   \<and> \<not> has_returned (main_startup env_no_config ([]::string list) [Response 0])
   \<and> exit_code (flow_state (main_startup env_no_config ([]::string list) [Response 0])) = Some 1
   \<and> map message (dialogs (flow_state (main_startup env_no_config ([]::string list) [Response 0])))
        = [''no such file or directory'']
   \<and> has_returned (main_startup example_env ([]::string list) [Response 0])"
proof -
  let ?u = "[]::string list"
  let ?evs = "[Response 0] :: string list gtk_event list"
  have l1: "LookPath env_not_installed = Inl ''executable file not found in $PATH''"
    by (simp add: env_not_installed_def)
  have l2: "LookPath env_no_user = Inr ''/usr/bin/mopidy''
            \<and> user_Current env_no_user = Inl ''user: unknown userid''"
    by (simp add: env_no_user_def example_env_def)
  have l3: "LookPath env_no_config = Inr ''/usr/bin/mopidy''
            \<and> user_Current env_no_config = Inr ''/home/me''
            \<and> config_Load env_no_config (config_path ''/home/me'') = Inl ''no such file or directory''"
    by (simp add: env_no_config_def example_env_def)
  have s1: "main_startup env_not_installed ?u ?evs
              = Fatal ''Mopidy is not installed.'' ?evs (init_world ?u)"
    using startup_failures_are_fatal[of env_not_installed ?u ?evs] l1 by auto
  have s2: "main_startup env_no_user ?u ?evs = Fatal ''user: unknown userid'' ?evs (init_world ?u)"
    using startup_failures_are_fatal[of env_no_user ?u ?evs] l2 by auto
  have s3: "main_startup env_no_config ?u ?evs
              = Fatal ''no such file or directory'' ?evs (init_world ?u)"
    using startup_failures_are_fatal[of env_no_config ?u ?evs] l3 by auto
  have f: "\<And>e. \<not> has_returned (Fatal e ?evs (init_world ?u))
              \<and> exit_code (flow_state (Fatal e ?evs (init_world ?u))) = Some 1
              \<and> Errors (flow_state (Fatal e ?evs (init_world ?u))) = []
              \<and> map message (dialogs (flow_state (Fatal e ?evs (init_world ?u)))) = [e]"
    by (simp add: Fatal_def gtk_Main_def show_dialog_def init_world_def)
  have ok: "has_returned (main_startup example_env ?u ?evs)"
    by (simp add: main_startup_def check_installed_def find_config_def load_config_def
          create_window_def show_window_def example_env_def)
  show ?thesis unfolding s1 s2 s3 using f ok by simp
qed

subsection \<open>SetStatus\<close>

lemma critical_cases:
  "in_critical p = ((\<exists>s. p = SsWrite s) \<or> (\<exists>s. p = SsUpdate s) \<or> p = SsUnlock)"
  by (cases p) (simp_all add: in_critical_def)

lemma in_critical_simps [simp]:
  "in_critical SsIdle = False" "in_critical (SsLock s) = False" "in_critical (SsWrite s) = True"
  "in_critical (SsUpdate s) = True" "in_critical SsUnlock = True" "in_critical SsDone = False"
  by (simp_all add: in_critical_def)

lemma status_step_lock_inv:
  assumes "status_step a w = Some w'" and "lock_inv w"
  shows "lock_inv w'"
proof (cases a)
  case (CallSetStatus t s)
  with assms have c: "callers w t = SsIdle \<or> callers w t = SsDone"
    and w': "w' = w\<lparr>callers := (callers w)(t := SsLock s)\<rparr>"
    by (simp_all add: status_step_def split: if_splits)
  from c have "\<not> in_critical (callers w t)" by auto
  then show ?thesis unfolding w' using assms(2)
    by (auto simp: lock_inv_def split: if_splits)
next
  case (StepSetStatus t)
  with assms have st: "SetStatus_step t w = Some w'"
    by (simp add: status_step_def split: if_splits)
  from assms(2) obtain m g where mg: "Mopidy w = Some m" "Gui w = Some g"
    by (auto simp: lock_inv_def split: if_splits)
  from assms(2) have iff: "\<And>t'. in_critical (callers w t') = (StatusLock w = Some t')"
    and nc: "\<not> crashed w"
    by (simp_all add: lock_inv_def)
  show ?thesis
  proof (cases "callers w t")
    case SsIdle
    with st show ?thesis by (simp add: SetStatus_step_def)
  next
    case (SsLock s)
    with st have f: "StatusLock w = None"
      and w': "w' = w\<lparr>StatusLock := Some t, callers := (callers w)(t := SsWrite s)\<rparr>"
      by (simp_all add: SetStatus_step_def split: option.splits)
    from iff f have "\<And>t'. \<not> in_critical (callers w t')" by simp
    then show ?thesis unfolding w' using mg nc
      by (auto simp: lock_inv_def split: if_splits)
  next
    case (SsWrite s)
    with st mg
    have w': "w' = w\<lparr>Mopidy := Some (m\<lparr>Status := s\<rparr>), callers := (callers w)(t := SsUpdate s)\<rparr>"
      by (simp add: SetStatus_step_def)
    from iff[of t] SsWrite have h: "StatusLock w = Some t" by simp
    show ?thesis unfolding w' using mg nc h iff
      by (auto simp: lock_inv_def split: if_splits)
  next
    case (SsUpdate s)
    from iff[of t] SsUpdate have h: "StatusLock w = Some t" by simp
    from st SsUpdate mg
    have "w' = w\<lparr>callers := (callers w)(t := SsUnlock)\<rparr>
          \<or> (\<exists>i x. w' = w\<lparr>Gui := Some (Gui_SetStatus i x g),
                            callers := (callers w)(t := SsUnlock)\<rparr>)"
      by (auto simp: SetStatus_step_def split: option.splits)
    then show ?thesis using mg nc h iff
      by (auto simp: lock_inv_def split: if_splits)
  next
    case SsUnlock
    with st have w': "w' = w\<lparr>StatusLock := None, callers := (callers w)(t := SsDone)\<rparr>"
      by (simp add: SetStatus_step_def)
    from iff[of t] SsUnlock have h: "StatusLock w = Some t" by simp
    with iff have "\<And>t'. t' \<noteq> t \<Longrightarrow> \<not> in_critical (callers w t')" by simp
    then show ?thesis unfolding w' using mg nc
      by (auto simp: lock_inv_def split: if_splits)
  next
    case SsDone
    with st show ?thesis by (simp add: SetStatus_step_def)
  qed
qed

lemma status_run_lock_inv:
  assumes "status_run as w0 = Some w" and "lock_inv w0"
  shows "lock_inv w"
  using assms
proof (induction as arbitrary: w0)
  case Nil
  then show ?case by simp
next
  case (Cons a as)
  from Cons.prems(1) obtain w1
    where s: "status_step a w0 = Some w1" and r: "status_run as w1 = Some w"
    by (auto split: option.splits)
  from Cons.IH[OF r status_step_lock_inv[OF s Cons.prems(2)]] show ?case .
qed

lemma paired_same:
  "Mopidy w' = Mopidy w \<Longrightarrow> Gui w' = Gui w \<Longrightarrow> paired w' = paired w"
  by (simp add: paired_def split: option.splits)

lemma status_step_pair_inv:
  assumes "status_step a w = Some w'" and "lock_inv w" and "pair_inv w0 w"
    and "requests_handled a"
  shows "pair_inv w0 w'"
proof -
  from assms(2) obtain m g where mg: "Mopidy w = Some m" "Gui w = Some g"
    by (auto simp: lock_inv_def)
  from assms(2) have iff: "\<And>t'. in_critical (callers w t') = (StatusLock w = Some t')"
    by (simp add: lock_inv_def)
  from assms(3)
  have h: "\<And>t' s. callers w t' = SsLock s \<Longrightarrow> status_display s \<noteq> None"
      "\<And>t' s. callers w t' = SsWrite s \<Longrightarrow> status_display s \<noteq> None"
      "\<And>t' s. callers w t' = SsUpdate s \<Longrightarrow> status_display s \<noteq> None"
    and u: "\<And>t' s. callers w t' = SsUpdate s \<Longrightarrow> map_option Status (Mopidy w) = Some s"
    and k: "\<And>t'. callers w t' = SsUnlock \<Longrightarrow> paired w"
    and l: "StatusLock w = None \<or> (\<exists>t s. callers w t = SsWrite s)
             \<Longrightarrow> paired w \<or> (Mopidy w = Mopidy w0 \<and> Gui w = Gui w0)"
    unfolding pair_inv_def by blast+
  have only: "\<And>t t'. StatusLock w = Some t \<Longrightarrow> t' \<noteq> t \<Longrightarrow> \<not> in_critical (callers w t')"
    using iff by simp
  have others: "\<And>t t' s. StatusLock w = Some t \<Longrightarrow> t' \<noteq> t \<Longrightarrow>
      callers w t' \<noteq> SsWrite s \<and> callers w t' \<noteq> SsUpdate s \<and> callers w t' \<noteq> SsUnlock"
  proof -
    fix t t' s
    assume "StatusLock w = Some t" and "t' \<noteq> t"
    then have "\<not> in_critical (callers w t')" by (rule only)
    then show "callers w t' \<noteq> SsWrite s \<and> callers w t' \<noteq> SsUpdate s \<and> callers w t' \<noteq> SsUnlock"
      by (cases "callers w t'") simp_all
  qed
  show ?thesis
  proof (cases a)
    case (CallSetStatus t s)
    with assms(1) have c: "callers w t = SsIdle \<or> callers w t = SsDone"
      and w': "w' = w\<lparr>callers := (callers w)(t := SsLock s)\<rparr>"
      by (simp_all add: status_step_def split: if_splits)
    from assms(4) CallSetStatus have d: "status_display s \<noteq> None" by simp
    have p: "paired w' = paired w" unfolding w' by (simp add: paired_def split: option.splits)
    have f: "Mopidy w' = Mopidy w" "Gui w' = Gui w" "StatusLock w' = StatusLock w"
      "callers w' = (callers w)(t := SsLock s)"
      unfolding w' by simp_all
    show ?thesis
      unfolding pair_inv_def p f
      using h u k l d by (auto split: if_splits)
  next
    case (StepSetStatus t)
    with assms(1) have st: "SetStatus_step t w = Some w'"
      by (simp add: status_step_def split: if_splits)
    show ?thesis
    proof (cases "callers w t")
      case SsIdle
      with st show ?thesis by (simp add: SetStatus_step_def)
    next
      case (SsLock s)
      with st have n: "StatusLock w = None"
        and w': "w' = w\<lparr>StatusLock := Some t, callers := (callers w)(t := SsWrite s)\<rparr>"
        by (simp_all add: SetStatus_step_def split: option.splits)
      have p: "paired w' = paired w" unfolding w' by (simp add: paired_def split: option.splits)
      have f: "Mopidy w' = Mopidy w" "Gui w' = Gui w" "StatusLock w' = Some t"
        "callers w' = (callers w)(t := SsWrite s)"
        unfolding w' by simp_all
      from l n have l': "paired w \<or> (Mopidy w = Mopidy w0 \<and> Gui w = Gui w0)" by simp
      from h(1)[of t s] SsLock have d: "status_display s \<noteq> None" by simp
      show ?thesis
        unfolding pair_inv_def p f
        using h u k l' d by (auto split: if_splits)
    next
      case (SsWrite s)
      with st mg
      have w': "w' = w\<lparr>Mopidy := Some (m\<lparr>Status := s\<rparr>),
                      callers := (callers w)(t := SsUpdate s)\<rparr>"
        by (simp add: SetStatus_step_def)
      from iff[of t] SsWrite have lk: "StatusLock w = Some t" by simp
      have f: "Mopidy w' = Some (m\<lparr>Status := s\<rparr>)" "StatusLock w' = Some t"
        "callers w' = (callers w)(t := SsUpdate s)"
        unfolding w' using lk by simp_all
      from h(2)[of t s] SsWrite have d: "status_display s \<noteq> None" by simp
      show ?thesis
        unfolding pair_inv_def f
        using others[OF lk] h d by (auto split: if_splits)
    next
      case (SsUpdate s)
      from iff[of t] SsUpdate have lk: "StatusLock w = Some t" by simp
      from h(3)[of t s] SsUpdate obtain i x where d: "status_display s = Some (i, x)" by auto
      from u[of t s] SsUpdate mg have sm: "Status m = s" by simp
      from st SsUpdate mg d
      have w': "w' = w\<lparr>Gui := Some (Gui_SetStatus i x g),
                      callers := (callers w)(t := SsUnlock)\<rparr>"
        by (simp add: SetStatus_step_def)
      have p: "paired w'"
        unfolding w' using mg sm d by (simp add: paired_def Gui_SetStatus_def split: option.splits)
      have f: "StatusLock w' = Some t" "callers w' = (callers w)(t := SsUnlock)"
        unfolding w' using lk by simp_all
      show ?thesis
        unfolding pair_inv_def f
        using others[OF lk] h p by (auto split: if_splits)
    next
      case SsUnlock
      with st have w': "w' = w\<lparr>StatusLock := None, callers := (callers w)(t := SsDone)\<rparr>"
        by (simp add: SetStatus_step_def)
      from iff[of t] SsUnlock have lk: "StatusLock w = Some t" by simp
      have p: "paired w'" using k[of t] SsUnlock unfolding w' by (simp add: paired_def split: option.splits)
      have f: "StatusLock w' = None" "callers w' = (callers w)(t := SsDone)"
        unfolding w' by simp_all
      show ?thesis
        unfolding pair_inv_def f
        using others[OF lk] h p by (auto split: if_splits)
    next
      case SsDone
      with st show ?thesis by (simp add: SetStatus_step_def)
    qed
  qed
qed

lemma status_run_pair_inv:
  assumes "status_run as w1 = Some w" and "lock_inv w1" and "pair_inv w0 w1"
    and "\<forall>a\<in>set as. requests_handled a"
  shows "pair_inv w0 w"
  using assms
proof (induction as arbitrary: w1)
  case Nil
  then show ?case by simp
next
  case (Cons a as)
  from Cons.prems(1) obtain w2
    where s: "status_step a w1 = Some w2" and r: "status_run as w2 = Some w"
    by (auto split: option.splits)
  from Cons.prems(4) have ha: "requests_handled a" and hs: "\<forall>a\<in>set as. requests_handled a"
    by simp_all
  from Cons.IH[OF r status_step_lock_inv[OF s Cons.prems(2)]
      status_step_pair_inv[OF s Cons.prems(2,3) ha] hs]
  show ?case .
qed

lemma whole_call:
  assumes "lock_inv w" and "StatusLock w = None"
    and "callers w t = SsIdle \<or> callers w t = SsDone" and "status_display s \<noteq> None"
  shows "\<exists>w'. SetStatus t s w = Some w' \<and> paired w' \<and> StatusLock w' = None
            \<and> map_option Status (Mopidy w') = Some s"
proof -
  from assms(1) obtain m g where mg: "Mopidy w = Some m" "Gui w = Some g"
    and nc: "\<not> crashed w"
    by (auto simp: lock_inv_def)
  from assms(4) obtain i x where d: "status_display s = Some (i, x)" by auto
  let ?w1 = "w\<lparr>callers := (callers w)(t := SsLock s)\<rparr>"
  let ?w2 = "?w1\<lparr>StatusLock := Some t, callers := (callers ?w1)(t := SsWrite s)\<rparr>"
  let ?w3 = "?w2\<lparr>Mopidy := Some (m\<lparr>Status := s\<rparr>), callers := (callers ?w2)(t := SsUpdate s)\<rparr>"
  let ?w4 = "?w3\<lparr>Gui := Some (Gui_SetStatus i x g), callers := (callers ?w3)(t := SsUnlock)\<rparr>"
  let ?w5 = "?w4\<lparr>StatusLock := None, callers := (callers ?w4)(t := SsDone)\<rparr>"
  have s1: "status_step (CallSetStatus t s) w = Some ?w1"
    using assms(3) nc by (auto simp: status_step_def)
  have s2: "status_step (StepSetStatus t) ?w1 = Some ?w2"
    using assms(2) nc by (simp add: status_step_def SetStatus_step_def)
  have s3: "status_step (StepSetStatus t) ?w2 = Some ?w3"
    using mg nc by (simp add: status_step_def SetStatus_step_def)
  have s4: "status_step (StepSetStatus t) ?w3 = Some ?w4"
    using mg nc d by (simp add: status_step_def SetStatus_step_def)
  have s5: "status_step (StepSetStatus t) ?w4 = Some ?w5"
    using nc by (simp add: status_step_def SetStatus_step_def)
  have r: "SetStatus t s w = Some ?w5"
    unfolding SetStatus_def using s1 s2 s3 s4 s5 by simp
  have p: "paired ?w5" using d by (simp add: paired_def Gui_SetStatus_def split: option.splits)
  show ?thesis using r p by simp
qed

text \<open>
  C5, for the statuses that the switch handles. Goroutines that start outside \<^verbatim>\<open>SetStatus\<close>, with the mutex free and the
  two pointers set, call \<^verbatim>\<open>SetStatus\<close> and take their steps in any order. Whatever statuses
  they ask for, a goroutine is between its lock and its unlock exactly when it holds the
  mutex, so the assignment and the update of the display happen under the mutex, and
  nothing panics. When every status asked for is one of Connecting, Connected and Failed,
  then whenever the mutex is free the status and the display agree with the table of the
  switch, unless nothing has been written yet. A whole call with such a status, from a
  state where the mutex is free, returns with that status, the matching display and the
  mutex free.
\<close>

theorem SetStatus_atomic_for_handled_statuses:
  assumes "StatusLock w0 = None" and "\<forall>t. callers w0 t = SsIdle" and "\<not> crashed w0"
    and "Mopidy w0 \<noteq> None" and "Gui w0 \<noteq> None"
    and "status_run as w0 = Some w"
  shows "(\<forall>t. in_critical (callers w t) = (StatusLock w = Some t))
       \<and> \<not> crashed w
       \<and> ((\<forall>a\<in>set as. requests_handled a) \<longrightarrow>
            (StatusLock w = None \<longrightarrow> paired w \<or> (Mopidy w = Mopidy w0 \<and> Gui w = Gui w0)))
       \<and> (\<forall>t s. status_display s \<noteq> None \<and> StatusLock w = None
               \<and> (callers w t = SsIdle \<or> callers w t = SsDone) \<longrightarrow>
             (\<exists>w'. SetStatus t s w = Some w' \<and> paired w' \<and> StatusLock w' = None
                  \<and> map_option Status (Mopidy w') = Some s))"
proof -
  have l0: "lock_inv w0"
    using assms(1-5) by (simp add: lock_inv_def)
  have p0: "pair_inv w0 w0"
    using assms(2) by (simp add: pair_inv_def)
  from status_run_lock_inv[OF assms(6) l0] have l: "lock_inv w" .
  then have a: "\<forall>t. in_critical (callers w t) = (StatusLock w = Some t)" and b: "\<not> crashed w"
    by (simp_all add: lock_inv_def)
  have c: "(\<forall>a\<in>set as. requests_handled a) \<longrightarrow>
            (StatusLock w = None \<longrightarrow> paired w \<or> (Mopidy w = Mopidy w0 \<and> Gui w = Gui w0))"
  proof
    assume "\<forall>a\<in>set as. requests_handled a"
    from status_run_pair_inv[OF assms(6) l0 p0 this]
    show "StatusLock w = None \<longrightarrow> paired w \<or> (Mopidy w = Mopidy w0 \<and> Gui w = Gui w0)"
      by (simp add: pair_inv_def)
  qed
  have d: "\<forall>t s. status_display s \<noteq> None \<and> StatusLock w = None
               \<and> (callers w t = SsIdle \<or> callers w t = SsDone) \<longrightarrow>
             (\<exists>w'. SetStatus t s w = Some w' \<and> paired w' \<and> StatusLock w' = None
                  \<and> map_option Status (Mopidy w') = Some s)"
    using whole_call[OF l] by blast
  show ?thesis using a b c d by (intro conjI)
qed

theorem SetStatus_atomic_for_handled_statuses_witness:
  "StatusLock example_status_sys = None \<and> \<not> crashed example_status_sys
   \<and> status_run (take 3 example_calls @ [StepSetStatus 1]) example_status_sys = None
   \<and> observe_after example_calls example_status_sys = Some (MopidyFailed, [], ''Not connected.'')
   \<and> (\<exists>w. status_run example_calls example_status_sys = Some w \<and> StatusLock w = None
          \<and> paired w)"
proof -
  have i: "StatusLock example_status_sys = None" "\<forall>t. callers example_status_sys t = SsIdle"
    "\<not> crashed example_status_sys" "Mopidy example_status_sys \<noteq> None"
    "Gui example_status_sys \<noteq> None"
    by (simp_all add: example_status_sys_def)
  have h: "\<forall>a\<in>set example_calls. requests_handled a"
    by (simp add: example_calls_def status_display_def)
  have blocked: "status_run (take 3 example_calls @ [StepSetStatus 1]) example_status_sys = None"
    by code_simp
  have o: "observe_after example_calls example_status_sys
             = Some (MopidyFailed, [], ''Not connected.'')"
    by code_simp
  then obtain w where r: "status_run example_calls example_status_sys = Some w"
    and ow: "observe w = Some (MopidyFailed, [], ''Not connected.'')"
    by (auto simp: observe_after_def split: option.splits)
  from ow have f: "StatusLock w = None"
    by (auto simp: observe_def split: option.splits)
  from ow have changed: "Mopidy w \<noteq> Mopidy example_status_sys"
    by (auto simp: observe_def example_status_sys_def example_mopidy_def split: option.splits)
  note t = SetStatus_atomic_for_handled_statuses[OF i r]
  have "(\<forall>a\<in>set example_calls. requests_handled a) \<longrightarrow>
          (StatusLock w = None \<longrightarrow>
             paired w \<or> (Mopidy w = Mopidy example_status_sys \<and> Gui w = Gui example_status_sys))"
    using t by (elim conjE)
  with h f changed have "paired w" by simp
  then show ?thesis using i(1,3) blocked o r f by simp
qed

text \<open>
  C5 does not extend to the status NotStarted: a whole call writes the status and leaves
  the display as it was, so that with the mutex free the status NotStarted is seen beside
  the display of Connected.
\<close>

theorem SetStatus_unhandled_status_counterexample:
  "observe example_status_sys = Some (MopidyConnected, ''gtk-connect'', ''Connected to Mopidy.'')
   \<and> observe_after example_unhandled example_status_sys
       = Some (MopidyNotStarted, ''gtk-connect'', ''Connected to Mopidy.'')
   \<and> status_display MopidyNotStarted = None"
  by code_simp

end
